theory Spec2Isabelle
  imports Main "HOL-Library.AList"
begin

section \<open>Circuit breaker (class CircuitBreaker of telegram-api.ts)\<close>

text \<open>
  Instants are the millisecond values of \<open>Date.now()\<close>, modelled as integers; every
  operation that reads the clock takes the instant it reads as its first argument.
  Logger calls and metric updates change no state that the pipeline reads back and are
  left out.
\<close>

datatype breaker_state = Closed | Open | HalfOpen

record CircuitBreaker =
  consecutiveFailures :: nat
  openedAt :: int
  state :: breaker_state

definition newCircuitBreaker :: CircuitBreaker where
  "newCircuitBreaker = \<lparr>consecutiveFailures = 0, openedAt = 0, state = Closed\<rparr>"

definition threshold :: nat where
  "threshold = 5"

definition resetMs :: int where
  "resetMs = 30000"

definition isOpen :: "int \<Rightarrow> CircuitBreaker \<Rightarrow> bool \<times> CircuitBreaker" where
  "isOpen now b =
     (if state b = Open then
        (if now - openedAt b \<ge> resetMs then (False, b\<lparr>state := HalfOpen\<rparr>)
         else (True, b))
      else (False, b))"

definition getState :: "CircuitBreaker \<Rightarrow> breaker_state" where
  "getState b = state b"

definition recordSuccess :: "CircuitBreaker \<Rightarrow> CircuitBreaker" where
  "recordSuccess b = b\<lparr>consecutiveFailures := 0, state := Closed\<rparr>"

definition recordFailure :: "int \<Rightarrow> int option \<Rightarrow> CircuitBreaker \<Rightarrow> CircuitBreaker" where
  "recordFailure now errorCode b =
     (case errorCode of
        Some c \<Rightarrow>
          if c < 500 then b
          else (let b1 = b\<lparr>consecutiveFailures := consecutiveFailures b + 1\<rparr>
                in if consecutiveFailures b1 \<ge> threshold
                   then b1\<lparr>state := Open, openedAt := now\<rparr> else b1)
      | None \<Rightarrow>
          (let b1 = b\<lparr>consecutiveFailures := consecutiveFailures b + 1\<rparr>
           in if consecutiveFailures b1 \<ge> threshold
              then b1\<lparr>state := Open, openedAt := now\<rparr> else b1))"

definition getConsecutiveFailures :: "CircuitBreaker \<Rightarrow> nat" where
  "getConsecutiveFailures b = consecutiveFailures b"

text \<open>A qualifying failure carries no error code or a code of at least 500.\<close>

definition qualifying :: "int option \<Rightarrow> bool" where
  "qualifying errorCode = (case errorCode of None \<Rightarrow> True | Some c \<Rightarrow> c \<ge> 500)"

text \<open>A run of \<open>recordFailure\<close> calls, each with the instant it reads and its code.\<close>

fun recordFailures :: "(int \<times> int option) list \<Rightarrow> CircuitBreaker \<Rightarrow> CircuitBreaker" where
  "recordFailures [] b = b"
| "recordFailures ((now, c) # calls) b = recordFailures calls (recordFailure now c b)"

section \<open>Global rate limiter (class RateLimiter of telegram-api.ts)\<close>

record RateLimiter =
  requests :: "int list"
  limitPerMinute :: int

definition newRateLimiter :: "int \<Rightarrow> RateLimiter" where
  "newRateLimiter limit = \<lparr>requests = [], limitPerMinute = limit\<rparr>"

definition cleanup :: "int \<Rightarrow> RateLimiter \<Rightarrow> RateLimiter" where
  "cleanup now l =
     (let oneMinuteAgo = now - 60000
      in l\<lparr>requests := filter (\<lambda>time. time > oneMinuteAgo) (requests l)\<rparr>)"

definition canMakeRequest :: "int \<Rightarrow> RateLimiter \<Rightarrow> bool \<times> RateLimiter" where
  "canMakeRequest now l =
     (let l1 = cleanup now l
      in (int (length (requests l1)) < limitPerMinute l1, l1))"

definition recordRequest :: "int \<Rightarrow> RateLimiter \<Rightarrow> RateLimiter" where
  "recordRequest now l = l\<lparr>requests := requests l @ [now]\<rparr>"

text \<open>
  \<open>getWaitTime\<close> reads \<open>requests[0]\<close>. On an empty array (possible only when the
  budget is not positive) that is \<open>undefined\<close> and the JavaScript result is \<open>NaN\<close>,
  which is the value \<open>None\<close> here.
\<close>

definition getWaitTime :: "int \<Rightarrow> RateLimiter \<Rightarrow> int option \<times> RateLimiter" where
  "getWaitTime now l =
     (let l1 = cleanup now l
      in if int (length (requests l1)) < limitPerMinute l1 then (Some 0, l1)
         else (case requests l1 of
                 [] \<Rightarrow> (None, l1)
               | oldestRequest # _ \<Rightarrow> (Some (max 0 (60000 - (now - oldestRequest))), l1)))"

definition getRequestCount :: "int \<Rightarrow> RateLimiter \<Rightarrow> nat \<times> RateLimiter" where
  "getRequestCount now l = (let l1 = cleanup now l in (length (requests l1), l1))"

definition isLimited :: "int \<Rightarrow> RateLimiter \<Rightarrow> bool \<times> RateLimiter" where
  "isLimited now l = (let (allowed, l1) = canMakeRequest now l in (\<not> allowed, l1))"

text \<open>A run of \<open>recordRequest\<close> calls at the given instants.\<close>

fun recordRequests :: "int list \<Rightarrow> RateLimiter \<Rightarrow> RateLimiter" where
  "recordRequests [] l = l"
| "recordRequests (t # ts) l = recordRequests ts (recordRequest t l)"

section \<open>Decimal numerals and \<open>parseInt\<close>\<close>

text \<open>
  \<open>String(n)\<close> and \<open>JSON.stringify(n)\<close> of an integer \<open>n\<close> write its decimal digits
  (identifiers and parameters stay far below \<open>10\<^sup>2\<^sup>1\<close>, where JavaScript switches to
  exponent notation). A string is a list of characters, a character being a code unit
  below 256.
\<close>

definition digit_char :: "nat \<Rightarrow> char" where
  "digit_char d = ''0123456789'' ! d"

fun string_of_nat :: "nat \<Rightarrow> string" where
  "string_of_nat n =
     (if n < 10 then [digit_char n]
      else string_of_nat (n div 10) @ [digit_char (n mod 10)])"

declare string_of_nat.simps [simp del]

definition string_of_int :: "int \<Rightarrow> string" where
  "string_of_int i =
     (if i < 0 then CHR ''-'' # string_of_nat (nat (- i)) else string_of_nat (nat i))"

definition isWhiteSpace :: "char \<Rightarrow> bool" where
  "isWhiteSpace c =
     (c \<in> set [CHR 0x09, CHR 0x0A, CHR 0x0B, CHR 0x0C, CHR 0x0D, CHR 0x20, CHR 0xA0])"

definition isDigit :: "char \<Rightarrow> bool" where
  "isDigit c = (c \<in> set ''0123456789'')"

definition digit_value :: "char \<Rightarrow> nat" where
  "digit_value c = of_char c - 48"

fun digits_value :: "nat \<Rightarrow> string \<Rightarrow> nat" where
  "digits_value acc [] = acc"
| "digits_value acc (c # cs) = digits_value (acc * 10 + digit_value c) cs"

text \<open>
  \<open>parseInt(s, 10)\<close>: leading white space is skipped, one sign is read, then the longest
  run of decimal digits; without a digit the result is \<open>NaN\<close>, here \<open>None\<close>. A character
  is a code unit below 256; of these, JavaScript counts as white space the tab, the line
  feed, the vertical tab, the form feed, the carriage return, the space and the no-break
  space \<open>U+00A0\<close>.
\<close>

definition parseInt :: "string \<Rightarrow> int option" where
  "parseInt s =
     (let s1 = dropWhile isWhiteSpace s;
          negative = (case s1 of c # _ \<Rightarrow> c = CHR ''-'' | [] \<Rightarrow> False);
          s2 = (case s1 of
                  c # r \<Rightarrow> if c = CHR ''-'' \<or> c = CHR ''+'' then r else s1
                | [] \<Rightarrow> []);
          ds = takeWhile isDigit s2
      in if ds = [] then None
         else Some (if negative then - int (digits_value 0 ds) else int (digits_value 0 ds)))"

section \<open>Per-chat rate limiter (class PerChatRateLimiter of telegram-api.ts)\<close>

text \<open>
  A chat identifier is a number or a string: the tool schemas type \<open>chat_id\<close> as
  \<open>z.union([z.number().int(), z.string().min(1)])\<close>.
\<close>

datatype chat_id = NumId int | StrId string

definition String_chatId :: "chat_id \<Rightarrow> string" where
  "String_chatId chatId = (case chatId of NumId n \<Rightarrow> string_of_int n | StrId s \<Rightarrow> s)"

record PerChatRateLimiter =
  chatTimestamps :: "(string \<times> int list) list"
  lastCleanup :: int

definition newPerChatRateLimiter :: "int \<Rightarrow> PerChatRateLimiter" where
  "newPerChatRateLimiter now = \<lparr>chatTimestamps = [], lastCleanup = now\<rparr>"

definition cleanupIntervalMs :: int where
  "cleanupIntervalMs = 60000"

definition privateMessageIntervalMs :: int where
  "privateMessageIntervalMs = 1000"

definition groupMessagesPerMinute :: nat where
  "groupMessagesPerMinute = 20"

definition isGroupChat :: "chat_id \<Rightarrow> bool" where
  "isGroupChat chatId =
     (case chatId of
        StrId s \<Rightarrow> (case parseInt s of None \<Rightarrow> True | Some n \<Rightarrow> n < 0)
      | NumId n \<Rightarrow> n < 0)"

text \<open>The sweep of \<open>maybeCleanup\<close> over the entries of the map, in their order.\<close>

fun sweep :: "int \<Rightarrow> (string \<times> int list) list \<Rightarrow> (string \<times> int list) list" where
  "sweep oneMinuteAgo [] = []"
| "sweep oneMinuteAgo ((chatId, timestamps) # entries) =
     (let recent = filter (\<lambda>t. t > oneMinuteAgo) timestamps
      in if recent = [] then sweep oneMinuteAgo entries
         else (chatId, recent) # sweep oneMinuteAgo entries)"

definition maybeCleanup :: "int \<Rightarrow> PerChatRateLimiter \<Rightarrow> PerChatRateLimiter" where
  "maybeCleanup now p =
     (if now - lastCleanup p < cleanupIntervalMs then p
      else p\<lparr>lastCleanup := now, chatTimestamps := sweep (now - 60000) (chatTimestamps p)\<rparr>)"

definition timestampsOf :: "PerChatRateLimiter \<Rightarrow> string \<Rightarrow> int list" where
  "timestampsOf p ident = (case map_of (chatTimestamps p) ident of None \<Rightarrow> [] | Some ts \<Rightarrow> ts)"

text \<open>
  In the private branch \<open>!lastMessage\<close> holds when the array is empty and also when the
  last instant is the number 0.
\<close>

definition canSendToChat :: "int \<Rightarrow> chat_id \<Rightarrow> PerChatRateLimiter \<Rightarrow> bool \<times> PerChatRateLimiter" where
  "canSendToChat now chatId p =
     (let p1 = maybeCleanup now p;
          timestamps = timestampsOf p1 (String_chatId chatId);
          isGroup = isGroupChat chatId
      in if isGroup then
           (let oneMinuteAgo = now - 60000;
                recentCount = length (filter (\<lambda>t. t > oneMinuteAgo) timestamps)
            in (recentCount < groupMessagesPerMinute, p1))
         else if timestamps = [] then (True, p1)
         else if last timestamps = 0 then (True, p1)
         else (now - last timestamps \<ge> privateMessageIntervalMs, p1))"

definition recordChatMessage :: "int \<Rightarrow> chat_id \<Rightarrow> PerChatRateLimiter \<Rightarrow> PerChatRateLimiter" where
  "recordChatMessage now chatId p =
     (let ident = String_chatId chatId;
          timestamps = timestampsOf p ident
      in p\<lparr>chatTimestamps := AList.update ident (timestamps @ [now]) (chatTimestamps p)\<rparr>)"

definition getWaitTimeForChat :: "int \<Rightarrow> chat_id \<Rightarrow> PerChatRateLimiter \<Rightarrow> int \<times> PerChatRateLimiter" where
  "getWaitTimeForChat now chatId p =
     (let p1 = maybeCleanup now p;
          timestamps = timestampsOf p1 (String_chatId chatId);
          isGroup = isGroupChat chatId
      in if timestamps = [] then (0, p1)
         else if isGroup then
           (let oneMinuteAgo = now - 60000;
                recentTimestamps = filter (\<lambda>t. t > oneMinuteAgo) timestamps
            in if length recentTimestamps < groupMessagesPerMinute then (0, p1)
               else (max 0 (60000 - (now - recentTimestamps ! 0)), p1))
         else
           (let lastMessage = last timestamps;
                elapsed = now - lastMessage
            in if elapsed \<ge> privateMessageIntervalMs then (0, p1)
               else (privateMessageIntervalMs - elapsed, p1)))"

definition getTrackedChatsCount :: "int \<Rightarrow> PerChatRateLimiter \<Rightarrow> nat \<times> PerChatRateLimiter" where
  "getTrackedChatsCount now p = (let p1 = maybeCleanup now p in (length (chatTimestamps p1), p1))"

definition MESSAGE_SENDING_METHODS :: "string list" where
  "MESSAGE_SENDING_METHODS =
     [''sendMessage'', ''sendPhoto'', ''sendAudio'', ''sendDocument'', ''sendVideo'',
      ''sendAnimation'', ''sendVoice'', ''sendVideoNote'', ''sendMediaGroup'', ''sendLocation'',
      ''sendVenue'', ''sendContact'', ''sendPoll'', ''sendDice'', ''sendSticker'',
      ''sendInvoice'', ''sendGame'', ''copyMessage'', ''forwardMessage'']"


section \<open>Parameter objects and \<open>JSON.stringify\<close>\<close>

text \<open>
  Parameters and results are JSON values as the tool protocol and the upstream reply
  deliver them: null, booleans, integers, strings, arrays and objects. An object is the
  list of its fields in the order in which the object enumerates them, which is the order
  \<open>JSON.stringify\<close> writes them in.
\<close>

datatype json =
  JNull
| JBool bool
| JNum int
| JStr string
| JArr "json list"
| JObj "(string \<times> json) list"

type_synonym params = "(string \<times> json) list"

definition hex_char :: "nat \<Rightarrow> char" where
  "hex_char d = ''0123456789abcdef'' ! d"

definition escape_char :: "char \<Rightarrow> string" where
  "escape_char c =
     (if c = CHR 0x22 then [CHR 0x5C, CHR 0x22]
      else if c = CHR 0x5C then [CHR 0x5C, CHR 0x5C]
      else if c = CHR 0x08 then [CHR 0x5C, CHR ''b'']
      else if c = CHR 0x0C then [CHR 0x5C, CHR ''f'']
      else if c = CHR 0x0A then [CHR 0x5C, CHR ''n'']
      else if c = CHR 0x0D then [CHR 0x5C, CHR ''r'']
      else if c = CHR 0x09 then [CHR 0x5C, CHR ''t'']
      else if (of_char c :: nat) < 32 then
        [CHR 0x5C, CHR ''u'', CHR ''0'', CHR ''0'',
         hex_char (of_char c div 16), hex_char (of_char c mod 16)]
      else [c])"

definition quote :: "string \<Rightarrow> string" where
  "quote s = CHR 0x22 # concat (map escape_char s) @ [CHR 0x22]"

fun stringify :: "json \<Rightarrow> string"
  and stringify_elements :: "json list \<Rightarrow> string"
  and stringify_members :: "(string \<times> json) list \<Rightarrow> string" where
  "stringify JNull = ''null''"
| "stringify (JBool b) = (if b then ''true'' else ''false'')"
| "stringify (JNum n) = string_of_int n"
| "stringify (JStr s) = quote s"
| "stringify (JArr xs) = ''['' @ stringify_elements xs @ '']''"
| "stringify (JObj fs) = ''{'' @ stringify_members fs @ ''}''"
| "stringify_elements [] = []"
| "stringify_elements [x] = stringify x"
| "stringify_elements (x # y # ys) = stringify x @ '','' @ stringify_elements (y # ys)"
| "stringify_members [] = []"
| "stringify_members [(k, v)] = quote k @ '':'' @ stringify v"
| "stringify_members ((k, v) # f # fs) =
     quote k @ '':'' @ stringify v @ '','' @ stringify_members (f # fs)"

section \<open>Response cache (cache/index.ts)\<close>

record CacheEntry =
  data :: json
  expiresAt :: int

type_synonym cache_map = "(string \<times> CacheEntry) list"

definition CACHE_TTL :: "(string \<times> int) list" where
  "CACHE_TTL =
     [(''getMe'', 60 * 60 * 1000),
      (''getWebhookInfo'', 60 * 1000),
      (''getStickerSet'', 5 * 60 * 1000),
      (''getChat'', 2 * 60 * 1000)]"

definition generateKey :: "string \<Rightarrow> params \<Rightarrow> string" where
  "generateKey method ps = method @ '':'' @ stringify (JObj ps)"

definition isCacheable :: "string \<Rightarrow> bool" where
  "isCacheable method = (map_of CACHE_TTL method \<noteq> None)"

text \<open>
  \<open>isCacheable\<close> is \<open>method in CACHE_TTL\<close>, for names of Bot API methods (no name
  of a property that every object inherits). \<open>getCached\<close> returns \<open>T | null\<close>: the
  value \<open>JNull\<close> is both the miss and a stored null.
\<close>

definition getCached :: "int \<Rightarrow> string \<Rightarrow> params \<Rightarrow> cache_map \<Rightarrow> json \<times> cache_map" where
  "getCached now method ps c =
     (let key = generateKey method ps
      in case map_of c key of
           None \<Rightarrow> (JNull, c)
         | Some entry \<Rightarrow>
             if now > expiresAt entry then (JNull, AList.delete key c)
             else (data entry, c))"

definition setCache :: "int \<Rightarrow> string \<Rightarrow> params \<Rightarrow> json \<Rightarrow> int option \<Rightarrow> cache_map \<Rightarrow> cache_map" where
  "setCache now method ps d ttlMs c =
     (let key = generateKey method ps;
          ttl = (case ttlMs of Some t \<Rightarrow> Some t | None \<Rightarrow> map_of CACHE_TTL method)
      in case ttl of
           None \<Rightarrow> c
         | Some t \<Rightarrow>
             if t = 0 then c
             else AList.update key \<lparr>data = d, expiresAt = now + t\<rparr> c)"

definition clearCache :: "cache_map \<Rightarrow> cache_map" where
  "clearCache c = []"

definition startsWith :: "string \<Rightarrow> string \<Rightarrow> bool" where
  "startsWith s p = (take (length p) s = p)"

definition clearCacheForMethod :: "string \<Rightarrow> cache_map \<Rightarrow> cache_map" where
  "clearCacheForMethod method c =
     (let pre = method @ '':'' in filter (\<lambda>(key, entry). \<not> startsWith key pre) c)"

definition getCacheStats :: "cache_map \<Rightarrow> nat \<times> (string \<times> nat) list" where
  "getCacheStats c =
     (length c,
      foldl (\<lambda>methods key.
               let method = takeWhile (\<lambda>ch. ch \<noteq> CHR '':'') key
               in AList.update method
                    ((case map_of methods method of None \<Rightarrow> 0 | Some n \<Rightarrow> n) + 1) methods)
            [] (map fst c))"

section \<open>Retry classification (telegram-api.ts)\<close>

record TelegramResponse =
  ok :: bool
  result :: "json option"
  description :: "string option"
  error_code :: "int option"
  retry_after :: "int option"

fun includes_str :: "string \<Rightarrow> string \<Rightarrow> bool" where
  "includes_str [] sub = (sub = [])"
| "includes_str (c # cs) sub = (startsWith (c # cs) sub \<or> includes_str cs sub)"

definition isRetryableError :: "TelegramResponse \<Rightarrow> bool" where
  "isRetryableError response =
     (if ok response then False
      else if error_code response = Some 429 then True
      else if (case error_code response of Some c \<Rightarrow> c \<noteq> 0 \<and> c \<ge> 500 | None \<Rightarrow> False) then True
      else if (error_code response = None \<or> error_code response = Some 0) \<and>
              (case description response of
                 Some d \<Rightarrow> includes_str d ''Network error''
               | None \<Rightarrow> False) then True
      else False)"

definition getRetryDelay :: "nat \<Rightarrow> int option \<Rightarrow> int" where
  "getRetryDelay attempt retryAfter =
     (case retryAfter of
        Some r \<Rightarrow> if r \<noteq> 0 then r * 1000 else min (1000 * 2 ^ attempt) 30000
      | None \<Rightarrow> min (1000 * 2 ^ attempt) 30000)"


section \<open>Pipeline driver (\<open>callTelegramAPI\<close> of telegram-api.ts)\<close>

text \<open>
  The singletons of the module (cache, global limiter, per-chat limiter, breaker) are the
  fields of one state record. The field \<open>wire\<close> is an observer added to the model: it
  logs, in order, every \<open>recordRequest\<close> call of the retry loop and every \<open>fetch\<close>.

  What the outside world does during one invocation is a value of type \<open>call_env\<close>:
  the instant read by the synchronous stages before the retry loop, the verdict of the
  upload module on the local files named in the parameters (it reads the file system),
  and for each attempt number the instant at which the attempt records itself, what
  \<open>fetch\<close> and \<open>response.json()\<close> deliver, and the instant read by the
  post-processing of that attempt.
\<close>

record ServerConfig =
  cfg_requestTimeout :: int
  cfg_maxRetries :: int
  cfg_rateLimitPerMinute :: int

record ApiCallOptions =
  opt_timeout :: "int option"
  opt_maxRetries :: "int option"
  opt_skipRateLimit :: bool

datatype fetch_outcome =
  Reply TelegramResponse
| Thrown bool string

record attempt_env =
  sentAt :: int
  outcome :: fetch_outcome
  doneAt :: int

datatype upload_result =
  NoLocalFiles
| LocalFiles params
| FileError string

record call_env =
  startedAt :: int
  uploadCheck :: upload_result
  attempts :: "nat \<Rightarrow> attempt_env"

datatype wire_event = Recorded int | Fetched nat

record pipeline =
  cache :: cache_map
  rateLimiter :: RateLimiter
  perChatLimiter :: PerChatRateLimiter
  circuitBreaker :: CircuitBreaker
  wire :: "wire_event list"

definition FILE_UPLOAD_METHODS :: "string list" where
  "FILE_UPLOAD_METHODS =
     [''sendPhoto'', ''sendAudio'', ''sendDocument'', ''sendVideo'', ''sendAnimation'',
      ''sendVoice'', ''sendVideoNote'', ''sendSticker'', ''setWebhook'', ''setChatPhoto'',
      ''uploadStickerFile'', ''createNewStickerSet'', ''addStickerToSet'',
      ''replaceStickerInSet'', ''setStickerSetThumbnail'',
      ''setBusinessAccountProfilePhoto'']"

text \<open>
  \<open>params.chat_id\<close>, read as \<open>string | number\<close>. A field of another JSON kind is
  outside the schema of \<open>chat_id\<close> and is treated here like an absent field.
\<close>

definition chatIdOf :: "params \<Rightarrow> chat_id option" where
  "chatIdOf ps =
     (case map_of ps ''chat_id'' of
        Some (JNum n) \<Rightarrow> Some (NumId n)
      | Some (JStr s) \<Rightarrow> Some (StrId s)
      | _ \<Rightarrow> None)"

definition ceilSeconds :: "int \<Rightarrow> int" where
  "ceilSeconds waitTime = - ((- waitTime) div 1000)"

definition circuitOpenResponse :: TelegramResponse where
  "circuitOpenResponse =
     \<lparr>ok = False, result = None,
      description =
        Some ''Service temporarily unavailable (circuit breaker open). Try again later.'',
      error_code = Some 503, retry_after = None\<rparr>"

definition checkGlobalLimit :: "int \<Rightarrow> RateLimiter \<Rightarrow> TelegramResponse option \<times> RateLimiter" where
  "checkGlobalLimit now l =
     (let (allowed, l1) = canMakeRequest now l
      in if allowed then (None, l1)
         else (let (waitTime, l2) = getWaitTime now l1;
                   secs = map_option ceilSeconds waitTime
               in (Some \<lparr>ok = False, result = None,
                         description =
                           Some (''Rate limit exceeded. Wait '' @
                                 (case secs of Some n \<Rightarrow> string_of_int n | None \<Rightarrow> ''NaN'') @
                                 '' seconds.''),
                         error_code = Some 429, retry_after = secs\<rparr>, l2)))"

definition checkPerChatLimit ::
  "int \<Rightarrow> chat_id \<Rightarrow> PerChatRateLimiter \<Rightarrow> TelegramResponse option \<times> PerChatRateLimiter" where
  "checkPerChatLimit now chatId p =
     (let (allowed, p1) = canSendToChat now chatId p
      in if allowed then (None, p1)
         else (let (waitTime, p2) = getWaitTimeForChat now chatId p1;
                   waitSeconds = ceilSeconds waitTime
               in (Some \<lparr>ok = False, result = None,
                         description =
                           Some (''Per-chat rate limit exceeded for chat '' @
                                 String_chatId chatId @ ''. Wait '' @
                                 string_of_int waitSeconds @ '' seconds.''),
                         error_code = Some 429, retry_after = Some waitSeconds\<rparr>, p2)))"

text \<open>The success branch of the retry loop, after the reply \<open>dat\<close> was decoded.\<close>

definition onSuccess :: "int \<Rightarrow> string \<Rightarrow> params \<Rightarrow> TelegramResponse \<Rightarrow> pipeline \<Rightarrow> pipeline" where
  "onSuccess now method finalParams dat st =
     (let st1 = st\<lparr>circuitBreaker := recordSuccess (circuitBreaker st)\<rparr>;
          st2 = (if method \<in> set MESSAGE_SENDING_METHODS then
                   (case chatIdOf finalParams of
                      Some chatId \<Rightarrow>
                        st1\<lparr>perChatLimiter := recordChatMessage now chatId (perChatLimiter st1)\<rparr>
                    | None \<Rightarrow> st1)
                 else st1)
      in if isCacheable method then
           (case result dat of
              Some r \<Rightarrow>
                st2\<lparr>cache := setCache now method finalParams r (map_of CACHE_TTL method) (cache st2)\<rparr>
            | None \<Rightarrow> st2)
         else st2)"

definition thrownResponse :: "int \<Rightarrow> bool \<Rightarrow> string \<Rightarrow> TelegramResponse" where
  "thrownResponse timeout isTimeout errorMessage =
     \<lparr>ok = False, result = None,
      description =
        Some (if isTimeout then ''Request timeout after '' @ string_of_int timeout @ ''ms''
              else ''Network error: '' @ errorMessage),
      error_code = None, retry_after = None\<rparr>"

definition unknownError :: TelegramResponse where
  "unknownError =
     \<lparr>ok = False, result = None, description = Some ''Unknown error'',
      error_code = None, retry_after = None\<rparr>"

function retryLoop ::
  "int \<Rightarrow> int \<Rightarrow> call_env \<Rightarrow> string \<Rightarrow> params \<Rightarrow> nat \<Rightarrow> TelegramResponse option \<Rightarrow> pipeline
   \<Rightarrow> TelegramResponse \<times> pipeline" where
  "retryLoop timeout maxRetries env method finalParams attempt lastResponse st =
     (if int attempt \<le> maxRetries then
        (let a = attempts env attempt;
             st1 = st\<lparr>rateLimiter := recordRequest (sentAt a) (rateLimiter st),
                      wire := wire st @ [Recorded (sentAt a), Fetched attempt]\<rparr>
         in case outcome a of
              Reply dat \<Rightarrow>
                if ok dat then (dat, onSuccess (doneAt a) method finalParams dat st1)
                else if isRetryableError dat \<and> int attempt < maxRetries then
                  retryLoop timeout maxRetries env method finalParams (Suc attempt) (Some dat) st1
                else
                  (dat, st1\<lparr>circuitBreaker :=
                             recordFailure (doneAt a) (error_code dat) (circuitBreaker st1)\<rparr>)
            | Thrown isTimeout errorMessage \<Rightarrow>
                if int attempt < maxRetries then
                  retryLoop timeout maxRetries env method finalParams (Suc attempt)
                    (Some (thrownResponse timeout isTimeout errorMessage)) st1
                else
                  (thrownResponse timeout isTimeout errorMessage,
                   st1\<lparr>circuitBreaker := recordFailure (doneAt a) None (circuitBreaker st1)\<rparr>))
      else (case lastResponse of Some r \<Rightarrow> r | None \<Rightarrow> unknownError, st))"
  by pat_completeness auto
termination
  by (relation "measure (\<lambda>(timeout, maxRetries, env, method, finalParams, attempt, lastResponse, st).
                  nat (maxRetries + 1 - int attempt))") auto

text \<open>
  Everything \<open>callTelegramAPI\<close> does after the cache probe missed. Parameters are JSON
  values, none of them \<open>undefined\<close>, so \<open>cleanParams\<close> is the parameter object itself.
\<close>

definition sendRequest ::
  "int \<Rightarrow> int \<Rightarrow> bool \<Rightarrow> call_env \<Rightarrow> string \<Rightarrow> params \<Rightarrow> pipeline \<Rightarrow> TelegramResponse \<times> pipeline" where
  "sendRequest timeout maxRetries skipRateLimit env method ps st =
     (let now = startedAt env;
          (blocked, b1) = isOpen now (circuitBreaker st);
          st1 = st\<lparr>circuitBreaker := b1\<rparr>
      in if blocked then (circuitOpenResponse, st1)
         else
           (let (refusal, l1) = (if skipRateLimit then (None, rateLimiter st1)
                                 else checkGlobalLimit now (rateLimiter st1));
                st2 = st1\<lparr>rateLimiter := l1\<rparr>
            in case refusal of
                 Some r \<Rightarrow> (r, st2)
               | None \<Rightarrow>
                   (let (refusal2, p1) =
                          (if \<not> skipRateLimit \<and> method \<in> set MESSAGE_SENDING_METHODS then
                             (case chatIdOf ps of
                                Some chatId \<Rightarrow> checkPerChatLimit now chatId (perChatLimiter st2)
                              | None \<Rightarrow> (None, perChatLimiter st2))
                           else (None, perChatLimiter st2));
                        st3 = st2\<lparr>perChatLimiter := p1\<rparr>
                    in case refusal2 of
                         Some r \<Rightarrow> (r, st3)
                       | None \<Rightarrow>
                           (case (if method \<in> set FILE_UPLOAD_METHODS then uploadCheck env
                                  else NoLocalFiles) of
                              FileError errorMessage \<Rightarrow>
                                (\<lparr>ok = False, result = None,
                                  description = Some (''File upload error: '' @ errorMessage),
                                  error_code = Some 400, retry_after = None\<rparr>, st3)
                            | NoLocalFiles \<Rightarrow>
                                retryLoop timeout maxRetries env method ps 0 None st3
                            | LocalFiles finalParams \<Rightarrow>
                                retryLoop timeout maxRetries env method finalParams 0 None st3))))"

definition callTelegramAPI ::
  "ServerConfig \<Rightarrow> ApiCallOptions \<Rightarrow> call_env \<Rightarrow> string \<Rightarrow> params \<Rightarrow> pipeline
   \<Rightarrow> TelegramResponse \<times> pipeline" where
  "callTelegramAPI config options env method ps st =
     (let timeout = (case opt_timeout options of Some t \<Rightarrow> t | None \<Rightarrow> cfg_requestTimeout config);
          maxRetries = (case opt_maxRetries options of Some m \<Rightarrow> m | None \<Rightarrow> cfg_maxRetries config);
          (cached, c1) = (if isCacheable method then getCached (startedAt env) method ps (cache st)
                          else (JNull, cache st));
          st1 = st\<lparr>cache := c1\<rparr>
      in if isCacheable method \<and> cached \<noteq> JNull then
           (\<lparr>ok = True, result = Some cached, description = None, error_code = None,
             retry_after = None\<rparr>, st1)
         else sendRequest timeout maxRetries (opt_skipRateLimit options) env method ps st1)"

section \<open>Status exports and health checks (telegram-api.ts, health/index.ts)\<close>

definition getCircuitBreakerStatus :: "int \<Rightarrow> pipeline \<Rightarrow> (breaker_state \<times> nat) \<times> pipeline" where
  "getCircuitBreakerStatus now st =
     (let (blocked, b1) = isOpen now (circuitBreaker st)
      in ((getState b1, getConsecutiveFailures b1), st\<lparr>circuitBreaker := b1\<rparr>))"

definition getRateLimiterStatus :: "int \<Rightarrow> pipeline \<Rightarrow> (nat \<times> bool \<times> nat) \<times> pipeline" where
  "getRateLimiterStatus now st =
     (let (gauge1, l1) = getRequestCount now (rateLimiter st);
          (gauge2, p1) = getTrackedChatsCount now (perChatLimiter st);
          (requestsInWindow, l2) = getRequestCount now l1;
          (limited, l3) = isLimited now l2;
          (perChatTracked, p2) = getTrackedChatsCount now p1
      in ((requestsInWindow, limited, perChatTracked),
          st\<lparr>rateLimiter := l3, perChatLimiter := p2\<rparr>))"

datatype health = Healthy | Degraded | Unhealthy

text \<open>The fields \<open>uptime\<close>, \<open>version\<close> and \<open>timestamp\<close> of the report are left out.\<close>

record HealthStatus =
  status :: health
  checks_circuitBreaker :: "breaker_state \<times> nat"
  checks_cache :: "nat \<times> (string \<times> nat) list"
  checks_rateLimiter :: "nat \<times> bool \<times> nat"

definition getHealthStatus :: "int \<Rightarrow> pipeline \<Rightarrow> HealthStatus \<times> pipeline" where
  "getHealthStatus now st =
     (let (cb, st1) = getCircuitBreakerStatus now st;
          (rl, st2) = getRateLimiterStatus now st1;
          cacheStats = getCacheStats (cache st2)
      in (\<lparr>status = (if fst cb = Open then Unhealthy
                      else if fst cb = HalfOpen \<or> fst (snd rl) then Degraded
                      else Healthy),
           checks_circuitBreaker = cb,
           checks_cache = cacheStats,
           checks_rateLimiter = rl\<rparr>, st2))"

definition isReady :: "int \<Rightarrow> pipeline \<Rightarrow> bool \<times> pipeline" where
  "isReady now st =
     (let (cb, st1) = getCircuitBreakerStatus now st in (fst cb \<noteq> Open, st1))"


section \<open>Runs of operations\<close>

text \<open>A run of admission checks of the breaker at the given instants, with their answers.\<close>

fun isOpenRun :: "int list \<Rightarrow> CircuitBreaker \<Rightarrow> bool list \<times> CircuitBreaker" where
  "isOpenRun [] b = ([], b)"
| "isOpenRun (t # ts) b =
     (let (r, b1) = isOpen t b; (rs, b2) = isOpenRun ts b1 in (r # rs, b2))"

text \<open>The module state before the first invocation, with the singletons created at \<open>now\<close>.\<close>

definition newPipeline :: "ServerConfig \<Rightarrow> int \<Rightarrow> pipeline" where
  "newPipeline config now =
     \<lparr>cache = [],
      rateLimiter = newRateLimiter (cfg_rateLimitPerMinute config),
      perChatLimiter = newPerChatRateLimiter now,
      circuitBreaker = newCircuitBreaker,
      wire = []\<rparr>"

definition defaultConfig :: ServerConfig where
  "defaultConfig = \<lparr>cfg_requestTimeout = 30000, cfg_maxRetries = 3, cfg_rateLimitPerMinute = 30\<rparr>"

text \<open>
  A run of cache operations. \<open>leaves key deadline\<close> holds of the operations that cannot
  remove or overwrite the entry stored under \<open>key\<close> with expiry \<open>deadline\<close>: a lookup
  of another key or one that does not find the entry expired, a store under another key,
  and an eviction of a method whose prefix the key does not start with.
\<close>

datatype cache_op =
  Lookup int string params
| Store int string params json "int option"
| EvictMethod string
| Clear

fun cache_step :: "cache_op \<Rightarrow> cache_map \<Rightarrow> cache_map" where
  "cache_step (Lookup now method ps) c = snd (getCached now method ps c)"
| "cache_step (Store now method ps d ttlMs) c = setCache now method ps d ttlMs c"
| "cache_step (EvictMethod method) c = clearCacheForMethod method c"
| "cache_step Clear c = clearCache c"

fun cache_run :: "cache_op list \<Rightarrow> cache_map \<Rightarrow> cache_map" where
  "cache_run [] c = c"
| "cache_run (x # xs) c = cache_run xs (cache_step x c)"

fun leaves :: "string \<Rightarrow> int \<Rightarrow> cache_op \<Rightarrow> bool" where
  "leaves key deadline (Lookup now method ps) = (generateKey method ps \<noteq> key \<or> now \<le> deadline)"
| "leaves key deadline (Store now method ps d ttlMs) = (generateKey method ps \<noteq> key)"
| "leaves key deadline (EvictMethod method) = (\<not> startsWith key (method @ '':''))"
| "leaves key deadline Clear = False"

text \<open>
  The same in terms of methods and parameter objects. A method name contains no colon.
  \<open>undisturbed m p deadline\<close> holds of a lookup of other parameters or of another
  method, of a lookup of \<open>(m, p)\<close> itself up to the deadline, of a store for other
  parameters or another method, and of an eviction of another method; it does not hold of
  \<open>clearCache\<close>, of \<open>clearCacheForMethod m\<close> and of a store for \<open>(m, p)\<close>.
\<close>

definition methodName :: "string \<Rightarrow> bool" where
  "methodName m = (CHR '':'' \<notin> set m)"

fun undisturbed :: "string \<Rightarrow> params \<Rightarrow> int \<Rightarrow> cache_op \<Rightarrow> bool" where
  "undisturbed m p deadline (Lookup now m' p') =
     (methodName m' \<and> ((m', p') \<noteq> (m, p) \<or> now \<le> deadline))"
| "undisturbed m p deadline (Store now m' p' d ttlMs) = (methodName m' \<and> (m', p') \<noteq> (m, p))"
| "undisturbed m p deadline (EvictMethod m') = (methodName m' \<and> m' \<noteq> m)"
| "undisturbed m p deadline Clear = False"

section \<open>Observing the attempts of an invocation\<close>

declare retryLoop.simps [simp del]

text \<open>
  Reading the \<open>wire\<close> log: the number of \<open>fetch\<close> calls, the \<open>recordRequest\<close>
  calls of the retry loop, and the two events that attempt number \<open>i\<close> contributes.
\<close>

definition isFetch :: "wire_event \<Rightarrow> bool" where
  "isFetch ev = (case ev of Fetched i \<Rightarrow> True | Recorded t \<Rightarrow> False)"

definition fetchCount :: "pipeline \<Rightarrow> nat" where
  "fetchCount st = length (filter isFetch (wire st))"

definition recordCount :: "pipeline \<Rightarrow> nat" where
  "recordCount st = length (filter (\<lambda>ev. \<not> isFetch ev) (wire st))"

definition attemptEvents :: "call_env \<Rightarrow> nat \<Rightarrow> wire_event list" where
  "attemptEvents env i = [Recorded (sentAt (attempts env i)), Fetched i]"

definition attemptsTrace :: "call_env \<Rightarrow> nat \<Rightarrow> nat \<Rightarrow> wire_event list" where
  "attemptsTrace env k n = concat (map (attemptEvents env) [k..<k + n])"



text \<open>
  What one run of the retry loop from attempt number \<open>attempt\<close> leaves behind when it made
  \<open>n\<close> attempts: at most the remaining budget and at least one when the loop is entered,
  one \<open>recordRequest\<close> immediately before every \<open>fetch\<close>, the instants appended to
  the global limiter, and, for a success, the reply of the last attempt as the result.
\<close>

definition loopShape ::
  "call_env \<Rightarrow> nat \<Rightarrow> int \<Rightarrow> pipeline \<Rightarrow> TelegramResponse \<times> pipeline \<Rightarrow> nat \<Rightarrow> bool" where
  "loopShape env attempt maxRetries st r n =
     (n \<le> nat (maxRetries + 1 - int attempt)
      \<and> (int attempt \<le> maxRetries \<longrightarrow> 0 < n)
      \<and> wire (snd r) = wire st @ attemptsTrace env attempt n
      \<and> requests (rateLimiter (snd r)) =
          requests (rateLimiter st) @ map (\<lambda>i. sentAt (attempts env i)) [attempt..<attempt + n]
      \<and> (ok (fst r) \<longrightarrow> 0 < n \<and> outcome (attempts env (attempt + n - 1)) = Reply (fst r)))"

text \<open>The number of \<open>fetch\<close> calls between two states of the pipeline.\<close>

definition attemptsMade :: "pipeline \<Rightarrow> pipeline \<Rightarrow> nat" where
  "attemptsMade st st' = fetchCount st' - fetchCount st"

text \<open>
  The same for a whole invocation that made \<open>n\<close> attempts; the admission check of the
  global limiter may have dropped old instants before the loop appended its own.
\<close>

definition callShape ::
  "call_env \<Rightarrow> int \<Rightarrow> pipeline \<Rightarrow> TelegramResponse \<times> pipeline \<Rightarrow> nat \<Rightarrow> bool" where
  "callShape env maxRetries st r n =
     (n \<le> nat (1 + maxRetries)
      \<and> wire (snd r) = wire st @ attemptsTrace env 0 n
      \<and> (requests (rateLimiter (snd r)) =
            requests (rateLimiter st) @ map (\<lambda>i. sentAt (attempts env i)) [0..<n]
          \<or> requests (rateLimiter (snd r)) =
            filter (\<lambda>t. startedAt env - t < 60000) (requests (rateLimiter st))
              @ map (\<lambda>i. sentAt (attempts env i)) [0..<n])
      \<and> (ok (fst r) \<and> 0 < n \<longrightarrow> outcome (attempts env (n - 1)) = Reply (fst r)))"


text \<open>Concrete replies, environments and options used to instantiate the theorems.\<close>

definition serverErrorReply :: TelegramResponse where
  "serverErrorReply =
     \<lparr>ok = False, result = None, description = Some ''Internal Server Error'',
      error_code = Some 500, retry_after = None\<rparr>"


definition okReply :: TelegramResponse where
  "okReply =
     \<lparr>ok = True, result = Some (JArr []), description = None, error_code = None,
      retry_after = None\<rparr>"

definition noOptions :: ApiCallOptions where
  "noOptions = \<lparr>opt_timeout = None, opt_maxRetries = None, opt_skipRateLimit = False\<rparr>"

text \<open>The first attempt is answered with code 500, every later one succeeds.\<close>

definition flakyEnv :: call_env where
  "flakyEnv =
     \<lparr>startedAt = 10, uploadCheck = NoLocalFiles,
      attempts = (\<lambda>i. if i = 0 then \<lparr>sentAt = 10, outcome = Reply serverErrorReply, doneAt = 20\<rparr>
                      else \<lparr>sentAt = 1020, outcome = Reply okReply, doneAt = 1030\<rparr>)\<rparr>"


section \<open>Text after a serialised number\<close>

text \<open>
  The text that may follow a serialised number: nothing, or a character that is not a
  decimal digit (in a serialised value it is a comma or a closing bracket or brace).
\<close>

definition noDigitAhead :: "string \<Rightarrow> bool" where
  "noDigitAhead r = (case r of [] \<Rightarrow> True | c # cs \<Rightarrow> \<not> isDigit c)"

section \<open>Properties of the circuit breaker\<close>

lemma recordFailure_nonqualifying:
  "\<not> qualifying c \<Longrightarrow> recordFailure now c b = b"
  by (cases c) (simp_all add: qualifying_def recordFailure_def)

lemma recordFailure_qualifying_count:
  "qualifying c \<Longrightarrow> consecutiveFailures (recordFailure now c b) = Suc (consecutiveFailures b)"
  by (cases c) (simp_all add: qualifying_def recordFailure_def Let_def)

lemma recordFailure_qualifying_state:
  "qualifying c \<Longrightarrow>
   state (recordFailure now c b) = (if 4 \<le> consecutiveFailures b then Open else state b)"
  by (cases c) (auto simp add: qualifying_def recordFailure_def Let_def threshold_def)

lemma recordFailures_general:
  "state (recordFailures calls b) =
     (if filter (qualifying \<circ> snd) calls \<noteq> [] \<and>
         5 \<le> consecutiveFailures b + length (filter (qualifying \<circ> snd) calls)
      then Open else state b)"
proof (induction calls arbitrary: b)
  case Nil
  show ?case by simp
next
  case (Cons call calls)
  obtain now c where call: "call = (now, c)" by (cases call)
  show ?case
  proof (cases "qualifying c")
    case True
    then show ?thesis
      using Cons.IH [of "recordFailure now c b"]
      by (auto simp add: call recordFailure_qualifying_count recordFailure_qualifying_state)
  next
    case False
    then show ?thesis
      using Cons.IH [of b] by (simp add: call recordFailure_nonqualifying)
  qed
qed

lemma recordFailures_nonqualifying:
  "\<forall>call \<in> set calls. \<not> qualifying (snd call) \<Longrightarrow> recordFailures calls b = b"
  by (induction calls arbitrary: b) (auto simp add: recordFailure_nonqualifying)

text \<open>
  Claim C1. Starting from a breaker whose failure counter is zero (fresh, or just after a
  success), a run of \<open>recordFailure\<close> calls leaves the phase open exactly when at
  least five of the calls carried a qualifying code (none, or at least 500), and leaves the
  phase as it was before the fifth such call. A call with a code from 400 to 499, 429
  included, returns the breaker unchanged, and so does any run of such calls.
\<close>

theorem C1_fifth_qualifying_failure_opens:
  "(consecutiveFailures b = 0 \<longrightarrow>
      state (recordFailures calls b) =
        (if 5 \<le> length (filter (qualifying \<circ> snd) calls) then Open else state b))
   \<and> (400 \<le> c \<and> c < 500 \<longrightarrow> recordFailure now (Some c) b = b)
   \<and> ((\<forall>call \<in> set clientCalls. \<exists>k. snd call = Some k \<and> 400 \<le> k \<and> k < 500) \<longrightarrow>
        recordFailures clientCalls b = b)"
proof (intro conjI impI)
  assume "consecutiveFailures b = 0"
  then show "state (recordFailures calls b) =
      (if 5 \<le> length (filter (qualifying \<circ> snd) calls) then Open else state b)"
    by (auto simp add: recordFailures_general)
next
  assume "400 \<le> c \<and> c < 500"
  then show "recordFailure now (Some c) b = b"
    by (simp add: recordFailure_def)
next
  assume "\<forall>call \<in> set clientCalls. \<exists>k. snd call = Some k \<and> 400 \<le> k \<and> k < 500"
  then have "\<forall>call \<in> set clientCalls. \<not> qualifying (snd call)"
    by (auto simp add: qualifying_def)
  then show "recordFailures clientCalls b = b"
    by (rule recordFailures_nonqualifying)
qed

theorem C1_witness:
  "consecutiveFailures newCircuitBreaker = 0
   \<and> state (recordFailures [(1, None), (2, Some 500), (3, Some 429), (4, None), (5, Some 502)]
               newCircuitBreaker) = Closed
   \<and> state (recordFailures [(1, None), (2, Some 500), (3, Some 429), (4, None), (5, Some 502),
                             (6, None)] newCircuitBreaker) = Open
   \<and> recordFailure 7 (Some 429) newCircuitBreaker = newCircuitBreaker
   \<and> recordFailures [(1, Some 400), (2, Some 429), (3, Some 404)] newCircuitBreaker
       = newCircuitBreaker"
  using C1_fifth_qualifying_failure_opens
          [where b = newCircuitBreaker
             and calls = "[(1, None), (2, Some 500), (3, Some 429), (4, None), (5, Some 502)]"
             and c = 429 and now = 7
             and clientCalls = "[(1, Some 400), (2, Some 429), (3, Some 404)]"]
        C1_fifth_qualifying_failure_opens
          [where b = newCircuitBreaker
             and calls = "[(1, None), (2, Some 500), (3, Some 429), (4, None), (5, Some 502),
                           (6, None)]"
             and c = 429 and now = 7
             and clientCalls = "[(1, Some 400), (2, Some 429), (3, Some 404)]"]
  by (simp add: newCircuitBreaker_def qualifying_def)

lemma isOpen_refuses:
  "state b = Open \<Longrightarrow> t - openedAt b < 30000 \<Longrightarrow> isOpen t b = (True, b)"
  by (simp add: isOpen_def resetMs_def)

lemma isOpen_half_opens:
  "state b = Open \<Longrightarrow> openedAt b + 30000 \<le> t \<Longrightarrow> isOpen t b = (False, b\<lparr>state := HalfOpen\<rparr>)"
  by (simp add: isOpen_def resetMs_def)

lemma isOpenRun_refuses:
  "state b = Open \<Longrightarrow> \<forall>t \<in> set ts. t - openedAt b < 30000 \<Longrightarrow>
   isOpenRun (ts @ rest) b =
     (replicate (length ts) True @ fst (isOpenRun rest b), snd (isOpenRun rest b))"
  by (induction ts) (simp_all add: isOpen_refuses split: prod.splits)

text \<open>
  Claim C2. While the breaker is open, an admission check at an instant less than 30000 ms
  after \<open>openedAt\<close> answers that the circuit is open (the call is refused) and changes
  nothing. After any number of such checks, the first check at or after
  \<open>openedAt + 30000\<close> answers that the circuit is not open (the call is allowed) and
  sets the phase to half-open; \<open>recordSuccess\<close> on the resulting breaker sets the
  phase to closed.
\<close>

theorem C2_open_breaker_refuses_until_reset:
  "state b = Open \<longrightarrow>
     (t0 - openedAt b < 30000 \<longrightarrow> isOpen t0 b = (True, b))
   \<and> ((\<forall>u \<in> set ts. u - openedAt b < 30000) \<and> openedAt b + 30000 \<le> t \<longrightarrow>
        isOpenRun (ts @ [t]) b =
          (replicate (length ts) True @ [False], b\<lparr>state := HalfOpen\<rparr>)
        \<and> state (recordSuccess (snd (isOpenRun (ts @ [t]) b))) = Closed)"
proof (intro impI conjI)
  assume o: "state b = Open"
  { assume "t0 - openedAt b < 30000"
    with o show "isOpen t0 b = (True, b)" by (rule isOpen_refuses) }
  assume h: "(\<forall>u \<in> set ts. u - openedAt b < 30000) \<and> openedAt b + 30000 \<le> t"
  then have run: "isOpenRun (ts @ [t]) b =
      (replicate (length ts) True @ [False], b\<lparr>state := HalfOpen\<rparr>)"
    using o by (simp add: isOpenRun_refuses isOpen_half_opens)
  show "isOpenRun (ts @ [t]) b =
      (replicate (length ts) True @ [False], b\<lparr>state := HalfOpen\<rparr>)"
    by (rule run)
  show "state (recordSuccess (snd (isOpenRun (ts @ [t]) b))) = Closed"
    by (simp add: recordSuccess_def)
qed

theorem C2_witness:
  "state \<lparr>consecutiveFailures = 5, openedAt = 1000, state = Open\<rparr> = Open
   \<and> isOpen 30999 \<lparr>consecutiveFailures = 5, openedAt = 1000, state = Open\<rparr>
       = (True, \<lparr>consecutiveFailures = 5, openedAt = 1000, state = Open\<rparr>)
   \<and> isOpenRun ([1000, 20000, 30999] @ [31000])
         \<lparr>consecutiveFailures = 5, openedAt = 1000, state = Open\<rparr>
       = ([True, True, True, False], \<lparr>consecutiveFailures = 5, openedAt = 1000, state = HalfOpen\<rparr>)
   \<and> state (recordSuccess (snd (isOpenRun ([1000, 20000, 30999] @ [31000])
         \<lparr>consecutiveFailures = 5, openedAt = 1000, state = Open\<rparr>))) = Closed"
  using C2_open_breaker_refuses_until_reset
          [where b = "\<lparr>consecutiveFailures = 5, openedAt = 1000, state = Open\<rparr>"
             and ?t0.0 = 30999 and ts = "[1000, 20000, 30999]" and t = 31000]
  by (simp add: isOpen_def resetMs_def recordSuccess_def)

section \<open>Properties of the status exports\<close>

lemma getCircuitBreakerStatus_half_opens:
  assumes "state (circuitBreaker st) = Open" "now - openedAt (circuitBreaker st) \<ge> 30000"
  shows "getCircuitBreakerStatus now st =
           ((HalfOpen, consecutiveFailures (circuitBreaker st)),
            st\<lparr>circuitBreaker := (circuitBreaker st)\<lparr>state := HalfOpen\<rparr>\<rparr>)"
  using assms
  by (simp add: getCircuitBreakerStatus_def isOpen_def resetMs_def getState_def
        getConsecutiveFailures_def)

lemma getRateLimiterStatus_breaker:
  "circuitBreaker (snd (getRateLimiterStatus now st)) = circuitBreaker st"
  by (simp add: getRateLimiterStatus_def case_prod_beta Let_def)

text \<open>
  Claim C10. Reading the breaker status is not read-only. For a breaker that is open with
  \<open>now - openedAt \<ge> 30000\<close>, \<open>getCircuitBreakerStatus\<close> reports half-open and leaves
  the breaker half-open, and so do \<open>getHealthStatus\<close> and \<open>isReady\<close>, which call it:
  the breaker held by the pipeline after the probe differs in phase from the one before.
\<close>

theorem C10_status_query_half_opens:
  "state (circuitBreaker st) = Open \<and> now - openedAt (circuitBreaker st) \<ge> 30000 \<longrightarrow>
     fst (getCircuitBreakerStatus now st) = (HalfOpen, consecutiveFailures (circuitBreaker st))
   \<and> circuitBreaker (snd (getCircuitBreakerStatus now st))
       = (circuitBreaker st)\<lparr>state := HalfOpen\<rparr>
   \<and> circuitBreaker (snd (getHealthStatus now st)) = (circuitBreaker st)\<lparr>state := HalfOpen\<rparr>
   \<and> isReady now st = (True, st\<lparr>circuitBreaker := (circuitBreaker st)\<lparr>state := HalfOpen\<rparr>\<rparr>)
   \<and> state (circuitBreaker (snd (isReady now st))) \<noteq> state (circuitBreaker st)"
  by (simp add: getCircuitBreakerStatus_half_opens getHealthStatus_def isReady_def
        getRateLimiterStatus_breaker case_prod_beta Let_def)

theorem C10_witness:
  "state (circuitBreaker ((newPipeline defaultConfig 0)
       \<lparr>circuitBreaker := \<lparr>consecutiveFailures = 5, openedAt = 1000, state = Open\<rparr>\<rparr>)) = Open
   \<and> isReady 31000 ((newPipeline defaultConfig 0)
         \<lparr>circuitBreaker := \<lparr>consecutiveFailures = 5, openedAt = 1000, state = Open\<rparr>\<rparr>)
       = (True, (newPipeline defaultConfig 0)
           \<lparr>circuitBreaker := \<lparr>consecutiveFailures = 5, openedAt = 1000, state = HalfOpen\<rparr>\<rparr>)
   \<and> fst (getCircuitBreakerStatus 31000 ((newPipeline defaultConfig 0)
         \<lparr>circuitBreaker := \<lparr>consecutiveFailures = 5, openedAt = 1000, state = Open\<rparr>\<rparr>))
       = (HalfOpen, 5)
   \<and> state (circuitBreaker (snd (getHealthStatus 31000 ((newPipeline defaultConfig 0)
         \<lparr>circuitBreaker := \<lparr>consecutiveFailures = 5, openedAt = 1000, state = Open\<rparr>\<rparr>))))
       = HalfOpen"
  using C10_status_query_half_opens
          [where st = "(newPipeline defaultConfig 0)
                         \<lparr>circuitBreaker := \<lparr>consecutiveFailures = 5, openedAt = 1000, state = Open\<rparr>\<rparr>"
             and now = 31000]
  by (simp add: newPipeline_def)

section \<open>Properties of the global rate limiter\<close>

lemma window_filter: "(\<lambda>time::int. now - 60000 < time) = (\<lambda>t. now - t < 60000)"
  by (rule ext) arith

lemma requests_cleanup:
  "requests (cleanup now l) = filter (\<lambda>t. now - t < 60000) (requests l)"
  by (simp add: cleanup_def window_filter)

lemma limit_cleanup: "limitPerMinute (cleanup now l) = limitPerMinute l"
  by (simp add: cleanup_def)

lemma cleanup_idem: "cleanup now (cleanup now l) = cleanup now l"
  by (simp add: cleanup_def)

lemma requests_recordRequests:
  "requests (recordRequests ts l) = requests l @ ts"
  by (induction ts arbitrary: l) (simp_all add: recordRequest_def)

lemma limit_recordRequests:
  "limitPerMinute (recordRequests ts l) = limitPerMinute l"
  by (induction ts arbitrary: l) (simp_all add: recordRequest_def)

lemma getWaitTime_refused:
  assumes "\<not> fst (canMakeRequest now l)" "1 \<le> limitPerMinute l"
  shows "fst (getWaitTime now l) =
           Some (max 0 (60000 - (now - hd (filter (\<lambda>t. now - t < 60000) (requests l)))))"
proof -
  let ?rs = "filter (\<lambda>t. now - t < 60000) (requests l)"
  from assms have len: "\<not> int (length ?rs) < limitPerMinute l"
    by (simp add: canMakeRequest_def Let_def requests_cleanup limit_cleanup)
  with assms(2) have "?rs \<noteq> []" by auto
  then obtain r rs where rs: "?rs = r # rs" by (cases ?rs) auto
  show ?thesis using len
    by (simp add: getWaitTime_def Let_def requests_cleanup limit_cleanup rs)
qed

lemma thirty_records_refused:
  assumes lim: "limitPerMinute l = 30"
    and len: "length ts = 30"
    and recent: "\<forall>t \<in> set ts. now - 60000 < t \<and> t \<le> now"
    and past: "\<forall>t \<in> set (requests l). t \<le> now"
  shows "\<not> fst (canMakeRequest now (recordRequests ts l))
       \<and> (\<exists>w. fst (getWaitTime now (snd (canMakeRequest now (recordRequests ts l)))) = Some w
              \<and> 0 \<le> w \<and> w \<le> 60000)"
proof -
  let ?l = "recordRequests ts l"
  let ?rs = "filter (\<lambda>t. now - t < 60000) (requests ?l)"
  have keep: "filter (\<lambda>t. now - t < 60000) ts = ts"
    using recent by (auto intro!: filter_True)
  have rs: "?rs = filter (\<lambda>t. now - t < 60000) (requests l) @ ts"
    by (simp add: requests_recordRequests keep)
  then have "30 \<le> length ?rs" using len by simp
  then have refused: "\<not> fst (canMakeRequest now ?l)"
    by (simp add: canMakeRequest_def Let_def requests_cleanup limit_cleanup
          limit_recordRequests lim del: filter_append)
  have snd_eq: "snd (canMakeRequest now ?l) = cleanup now ?l"
    by (simp add: canMakeRequest_def Let_def)
  have refused': "\<not> fst (canMakeRequest now (cleanup now ?l))"
    using refused by (simp add: canMakeRequest_def Let_def cleanup_idem)
  have w: "fst (getWaitTime now (cleanup now ?l)) =
             Some (max 0 (60000 - (now - hd ?rs)))"
    using getWaitTime_refused [OF refused'] 
    by (simp add: limit_cleanup limit_recordRequests lim requests_cleanup del: filter_append)
  have "?rs \<noteq> []" using \<open>30 \<le> length ?rs\<close> by auto
  then have "hd ?rs \<in> set ?rs" by (rule hd_in_set)
  then have "hd ?rs \<le> now" using past recent by (auto simp add: requests_recordRequests)
  then have "max 0 (60000 - (now - hd ?rs)) \<le> 60000" by simp
  with refused w snd_eq show ?thesis by simp
qed

text \<open>
  Claim C5. The admission check of the global limiter first drops every recorded instant
  that is 60000 ms old or older (so every instant older than 60 s is gone and every
  younger one is kept) and then allows exactly when the number of remaining instants is
  strictly below \<open>limitPerMinute\<close>. When the check refuses, with a budget of at least 1,
  \<open>getWaitTime\<close> at the same instant is \<open>max 0 (60000 - (now - oldest))\<close>, where
  \<open>oldest\<close> is the first remaining instant. With budget 30, after 30 records within
  the last minute (no recorded instant lying in the future), the check refuses and the
  wait time lies between 0 and 60000.
\<close>

theorem C5_global_limiter_admission:
  "fst (canMakeRequest now l) =
     (int (length (filter (\<lambda>t. now - t < 60000) (requests l))) < limitPerMinute l)
   \<and> requests (snd (canMakeRequest now l)) = filter (\<lambda>t. now - t < 60000) (requests l)
   \<and> (\<forall>t \<in> set (requests l). 60000 < now - t \<longrightarrow> t \<notin> set (requests (snd (canMakeRequest now l))))
   \<and> (\<not> fst (canMakeRequest now l) \<and> 1 \<le> limitPerMinute l \<longrightarrow>
        fst (getWaitTime now l) =
          Some (max 0 (60000 - (now - hd (filter (\<lambda>t. now - t < 60000) (requests l))))))
   \<and> (limitPerMinute l = 30 \<and> length ts = 30
        \<and> (\<forall>t \<in> set ts. now - 60000 < t \<and> t \<le> now)
        \<and> (\<forall>t \<in> set (requests l). t \<le> now) \<longrightarrow>
        \<not> fst (canMakeRequest now (recordRequests ts l))
        \<and> (\<exists>w. fst (getWaitTime now (snd (canMakeRequest now (recordRequests ts l)))) = Some w
               \<and> 0 \<le> w \<and> w \<le> 60000))"
proof (intro conjI impI)
  show "fst (canMakeRequest now l) =
     (int (length (filter (\<lambda>t. now - t < 60000) (requests l))) < limitPerMinute l)"
    by (simp add: canMakeRequest_def Let_def requests_cleanup limit_cleanup)
  show "requests (snd (canMakeRequest now l)) = filter (\<lambda>t. now - t < 60000) (requests l)"
    by (simp add: canMakeRequest_def Let_def requests_cleanup)
  show "\<forall>t \<in> set (requests l). 60000 < now - t \<longrightarrow> t \<notin> set (requests (snd (canMakeRequest now l)))"
    by (simp add: canMakeRequest_def Let_def requests_cleanup)
next
  assume "\<not> fst (canMakeRequest now l) \<and> 1 \<le> limitPerMinute l"
  then show "fst (getWaitTime now l) =
          Some (max 0 (60000 - (now - hd (filter (\<lambda>t. now - t < 60000) (requests l)))))"
    by (simp add: getWaitTime_refused)
next
  assume h: "limitPerMinute l = 30 \<and> length ts = 30
        \<and> (\<forall>t \<in> set ts. now - 60000 < t \<and> t \<le> now)
        \<and> (\<forall>t \<in> set (requests l). t \<le> now)"
  then have r: "\<not> fst (canMakeRequest now (recordRequests ts l))
       \<and> (\<exists>w. fst (getWaitTime now (snd (canMakeRequest now (recordRequests ts l)))) = Some w
              \<and> 0 \<le> w \<and> w \<le> 60000)"
    by (intro thirty_records_refused) simp_all
  from r show "\<not> fst (canMakeRequest now (recordRequests ts l))" by simp
  from r show "\<exists>w. fst (getWaitTime now (snd (canMakeRequest now (recordRequests ts l)))) = Some w
              \<and> 0 \<le> w \<and> w \<le> 60000" by simp
qed

theorem C5_witness:
  "\<not> fst (canMakeRequest 71000 \<lparr>requests = 100 # replicate 30 70000, limitPerMinute = 30\<rparr>)
   \<and> requests (snd (canMakeRequest 71000 \<lparr>requests = 100 # replicate 30 70000, limitPerMinute = 30\<rparr>))
       = replicate 30 70000
   \<and> 100 \<notin> set (requests (snd (canMakeRequest 71000
                     \<lparr>requests = 100 # replicate 30 70000, limitPerMinute = 30\<rparr>)))
   \<and> fst (getWaitTime 71000 \<lparr>requests = 100 # replicate 30 70000, limitPerMinute = 30\<rparr>)
       = Some 59000
   \<and> \<not> fst (canMakeRequest 71000
              (recordRequests (replicate 30 70500)
                 \<lparr>requests = 100 # replicate 30 70000, limitPerMinute = 30\<rparr>))
   \<and> (\<exists>w. fst (getWaitTime 71000 (snd (canMakeRequest 71000
              (recordRequests (replicate 30 70500)
                 \<lparr>requests = 100 # replicate 30 70000, limitPerMinute = 30\<rparr>)))) = Some w
          \<and> 0 \<le> w \<and> w \<le> 60000)"
proof -
  let ?l = "\<lparr>requests = 100 # replicate 30 70000, limitPerMinute = 30\<rparr>"
  let ?ts = "replicate 30 (70500::int)"
  note c5 = C5_global_limiter_admission [where now = 71000 and l = ?l and ts = ?ts]
  have refused: "\<not> fst (canMakeRequest 71000 ?l)"
    using c5 by simp
  have h: "limitPerMinute ?l = 30 \<and> length ?ts = 30
        \<and> (\<forall>t \<in> set ?ts. 71000 - 60000 < t \<and> t \<le> 71000)
        \<and> (\<forall>t \<in> set (requests ?l). t \<le> 71000)"
    by simp
  have "hd (filter (\<lambda>t. 71000 - t < 60000) (requests ?l)) = (70000::int)" by simp
  with c5 refused have wait: "fst (getWaitTime 71000 ?l) = Some 59000" by simp
  from c5 have kept: "requests (snd (canMakeRequest 71000 ?l)) = replicate 30 70000"
    by simp
  from kept have gone: "100 \<notin> set (requests (snd (canMakeRequest 71000 ?l)))"
    by simp
  from c5 h have last:
    "\<not> fst (canMakeRequest 71000 (recordRequests ?ts ?l))
     \<and> (\<exists>w. fst (getWaitTime 71000 (snd (canMakeRequest 71000 (recordRequests ?ts ?l)))) = Some w
            \<and> 0 \<le> w \<and> w \<le> 60000)"
    by blast
  from refused kept gone wait last show ?thesis by blast
qed

section \<open>Properties of \<open>JSON.stringify\<close> and of the cache key\<close>

lemma digit_char_table:
  "\<forall>k \<in> set [0..<10]. isDigit (digit_char k) \<and> digit_value (digit_char k) = k"
  by (simp add: upt_rec digit_char_def isDigit_def digit_value_def)

lemma digit_char_digit: "n < 10 \<Longrightarrow> isDigit (digit_char n)"
  using digit_char_table by simp

lemma digit_value_char: "n < 10 \<Longrightarrow> digit_value (digit_char n) = n"
  using digit_char_table by simp

lemma digits_value_snoc:
  "digits_value acc (cs @ [c]) = digits_value acc cs * 10 + digit_value c"
  by (induction cs arbitrary: acc) simp_all

lemma string_of_nat_digits: "\<forall>c \<in> set (string_of_nat n). isDigit c"
  by (induction n rule: string_of_nat.induct) (subst string_of_nat.simps, simp add: digit_char_digit)

lemma string_of_nat_nonempty: "string_of_nat n \<noteq> []"
  by (subst string_of_nat.simps) simp

lemma string_of_nat_value: "digits_value 0 (string_of_nat n) = n"
proof (induction n rule: string_of_nat.induct)
  case (1 n)
  show ?case
  proof (cases "n < 10")
    case True
    then show ?thesis by (subst string_of_nat.simps) (simp add: digit_value_char)
  next
    case False
    then show ?thesis using "1.IH"
      by (subst string_of_nat.simps) (simp add: digits_value_snoc digit_value_char)
  qed
qed

lemma string_of_nat_inj: "string_of_nat n = string_of_nat m \<Longrightarrow> n = m"
  by (metis string_of_nat_value)

lemma takeWhile_digits:
  "\<forall>c \<in> set xs. isDigit c \<Longrightarrow> noDigitAhead r \<Longrightarrow> takeWhile isDigit (xs @ r) = xs"
  by (cases r) (simp_all add: noDigitAhead_def takeWhile_append2)

lemma digits_prefix_unique:
  assumes "ds @ r1 = es @ r2" "\<forall>c \<in> set ds. isDigit c" "\<forall>c \<in> set es. isDigit c"
    "noDigitAhead r1" "noDigitAhead r2"
  shows "ds = es \<and> r1 = r2"
proof -
  have "ds = takeWhile isDigit (ds @ r1)" using assms(2,4) by (rule takeWhile_digits [symmetric])
  also have "\<dots> = takeWhile isDigit (es @ r2)" using assms(1) by simp
  also have "\<dots> = es" using assms(3,5) by (rule takeWhile_digits)
  finally have "ds = es" .
  with assms(1) show ?thesis by simp
qed

lemma minus_not_digit: "\<not> isDigit (CHR ''-'')"
  by (simp add: isDigit_def)

lemma string_of_int_unique:
  assumes "string_of_int i @ r1 = string_of_int j @ r2" "noDigitAhead r1" "noDigitAhead r2"
  shows "i = j \<and> r1 = r2"
proof -
  have hd_digit: "\<And>n. \<exists>c cs. string_of_nat n = c # cs \<and> isDigit c"
    using string_of_nat_digits string_of_nat_nonempty
    by (metis list.set_intros(1) neq_Nil_conv)
  show ?thesis
  proof (cases "i < 0"; cases "j < 0")
    assume neg: "i < 0" "j < 0"
    with assms(1) have "string_of_nat (nat (- i)) @ r1 = string_of_nat (nat (- j)) @ r2"
      by (simp add: string_of_int_def)
    then have "string_of_nat (nat (- i)) = string_of_nat (nat (- j)) \<and> r1 = r2"
      using assms(2,3) by (intro digits_prefix_unique) (simp_all add: string_of_nat_digits)
    then have "nat (- i) = nat (- j) \<and> r1 = r2" by (auto dest: string_of_nat_inj)
    with neg show ?thesis by arith
  next
    assume pos: "\<not> i < 0" "\<not> j < 0"
    with assms(1) have "string_of_nat (nat i) @ r1 = string_of_nat (nat j) @ r2"
      by (simp add: string_of_int_def)
    then have "string_of_nat (nat i) = string_of_nat (nat j) \<and> r1 = r2"
      using assms(2,3) by (intro digits_prefix_unique) (simp_all add: string_of_nat_digits)
    then have "nat i = nat j \<and> r1 = r2" by (auto dest: string_of_nat_inj)
    with pos show ?thesis by arith
  next
    assume "i < 0" "\<not> j < 0"
    with assms(1) hd_digit [of "nat j"] minus_not_digit show ?thesis
      by (auto simp add: string_of_int_def)
  next
    assume "\<not> i < 0" "j < 0"
    with assms(1) hd_digit [of "nat i"] minus_not_digit show ?thesis
      by (auto simp add: string_of_int_def)
  qed
qed

lemma string_of_nat_head: "\<exists>c cs. string_of_nat n = c # cs \<and> isDigit c"
  using string_of_nat_digits [of n] string_of_nat_nonempty [of n]
  by (cases "string_of_nat n") auto

lemma string_of_int_head:
  "\<exists>c cs. string_of_int i = c # cs \<and> (c = CHR ''-'' \<or> isDigit c)"
proof (cases "i < 0")
  case True
  then show ?thesis by (simp add: string_of_int_def)
next
  case False
  obtain c cs where "string_of_nat (nat i) = c # cs" "isDigit c"
    using string_of_nat_head by blast
  with False show ?thesis by (simp add: string_of_int_def)
qed

lemma hex_char_inj: "a < 16 \<Longrightarrow> b < 16 \<Longrightarrow> hex_char a = hex_char b \<Longrightarrow> a = b"
proof -
  assume a: "a < 16" and b: "b < 16" and eq: "hex_char a = hex_char b"
  have d: "distinct ''0123456789abcdef''" by simp
  have "a < length ''0123456789abcdef''" "b < length ''0123456789abcdef''"
    using a b by simp_all
  with d eq show "a = b" unfolding hex_char_def by (simp only: nth_eq_iff_index_eq)
qed

lemma hex_pair_inj:
  assumes "(v::nat) < 32" "w < 32" "hex_char (v div 16) = hex_char (w div 16)"
    "hex_char (v mod 16) = hex_char (w mod 16)"
  shows "v = w"
proof -
  have "v div 16 = w div 16" using assms(1,2,3) by (intro hex_char_inj) simp_all
  moreover have "v mod 16 = w mod 16" using assms(4) by (intro hex_char_inj) simp_all
  ultimately show ?thesis by (metis div_mult_mod_eq)
qed

lemma escape_char_head: "\<exists>x xs. escape_char c = x # xs \<and> x \<noteq> CHR 0x22"
  by (simp add: escape_char_def)

lemma escape_char_prefix:
  "escape_char c @ X = escape_char d @ Y \<Longrightarrow> c = d"
  by (auto simp add: escape_char_def split: if_splits dest: hex_pair_inj)

lemma escaped_unique:
  "concat (map escape_char s) @ CHR 0x22 # r1 = concat (map escape_char t) @ CHR 0x22 # r2
   \<Longrightarrow> s = t \<and> r1 = r2"
proof (induction s arbitrary: t)
  case Nil
  show ?case
  proof (cases t)
    case Nil
    with Nil.prems show ?thesis by simp
  next
    case (Cons d t')
    obtain x xs where "escape_char d = x # xs" "x \<noteq> CHR 0x22"
      using escape_char_head by blast
    with Nil.prems Cons show ?thesis by simp
  qed
next
  case (Cons c s)
  show ?case
  proof (cases t)
    case Nil
    obtain x xs where "escape_char c = x # xs" "x \<noteq> CHR 0x22"
      using escape_char_head by blast
    with Cons.prems Nil show ?thesis by simp
  next
    case (Cons d t')
    with Cons.prems have eq: "escape_char c @ (concat (map escape_char s) @ CHR 0x22 # r1)
        = escape_char d @ (concat (map escape_char t') @ CHR 0x22 # r2)"
      by simp
    then have cd: "c = d" by (rule escape_char_prefix)
    with eq have "concat (map escape_char s) @ CHR 0x22 # r1
        = concat (map escape_char t') @ CHR 0x22 # r2"
      by simp
    then have "s = t' \<and> r1 = r2" by (rule Cons.IH)
    with cd Cons show ?thesis by simp
  qed
qed

lemma quote_unique: "quote s @ r1 = quote t @ r2 \<Longrightarrow> s = t \<and> r1 = r2"
  by (rule escaped_unique) (simp add: quote_def)

lemma quote_head: "\<exists>cs. quote s = CHR 0x22 # cs"
  by (simp add: quote_def)

lemma stringify_head: "\<exists>c cs. stringify v = c # cs \<and> c \<notin> set '']},'' "
proof (cases v)
  case (JNum n)
  obtain c cs where "string_of_int n = c # cs" "c = CHR ''-'' \<or> isDigit c"
    using string_of_int_head by blast
  with JNum show ?thesis by (auto simp add: isDigit_def)
next
  case (JStr s)
  then show ?thesis using quote_head [of s] by auto
qed auto

lemma num_head_cases:
  obtains c cs where "string_of_int n = c # cs" "c \<in> set ''-0123456789''"
  using string_of_int_head [of n] by (auto simp add: isDigit_def)

lemma null_only: "''null'' @ r1 = stringify w @ r2 \<Longrightarrow> w = JNull \<and> r1 = r2"
proof (cases w)
  case (JNum n)
  assume a: "''null'' @ r1 = stringify w @ r2"
  obtain c cs where "string_of_int n = c # cs" "c \<in> set ''-0123456789''"
    by (rule num_head_cases)
  with a JNum show ?thesis by auto
next
  case (JStr s)
  assume a: "''null'' @ r1 = stringify w @ r2"
  with JStr quote_head [of s] show ?thesis by auto
qed (auto split: if_splits)

lemma bool_only: "stringify (JBool b) @ r1 = stringify w @ r2 \<Longrightarrow> w = JBool b \<and> r1 = r2"
proof (cases w)
  case (JNum n)
  assume a: "stringify (JBool b) @ r1 = stringify w @ r2"
  obtain c cs where "string_of_int n = c # cs" "c \<in> set ''-0123456789''"
    by (rule num_head_cases)
  with a JNum show ?thesis by (auto split: if_splits)
next
  case (JStr s)
  assume a: "stringify (JBool b) @ r1 = stringify w @ r2"
  with JStr quote_head [of s] show ?thesis by (auto split: if_splits)
qed (auto split: if_splits)

lemma num_only:
  assumes a: "string_of_int n @ r1 = stringify w @ r2" and "noDigitAhead r1" "noDigitAhead r2"
  shows "w = JNum n \<and> r1 = r2"
proof -
  obtain c cs where h: "string_of_int n = c # cs" "c \<in> set ''-0123456789''"
    by (rule num_head_cases)
  show ?thesis
  proof (cases w)
    case (JNum m)
    with assms string_of_int_unique [of n r1 m r2] show ?thesis by simp
  next
    case (JStr s)
    with a h quote_head [of s] show ?thesis by auto
  qed (use a h in \<open>auto split: if_splits\<close>)
qed

lemma str_only: "quote s @ r1 = stringify w @ r2 \<Longrightarrow> w = JStr s \<and> r1 = r2"
proof (cases w)
  case (JNum n)
  assume a: "quote s @ r1 = stringify w @ r2"
  obtain c cs where "string_of_int n = c # cs" "c \<in> set ''-0123456789''"
    by (rule num_head_cases)
  with a JNum quote_head [of s] show ?thesis by auto
next
  case (JStr t)
  assume a: "quote s @ r1 = stringify w @ r2"
  with JStr quote_unique [of s r1 t r2] show ?thesis by simp
qed (use quote_head [of s] in \<open>auto split: if_splits\<close>)

lemma arr_kind: "CHR ''['' # X = stringify w @ r2 \<Longrightarrow> \<exists>ys. w = JArr ys"
proof (cases w)
  case (JNum n)
  assume a: "CHR ''['' # X = stringify w @ r2"
  obtain c cs where "string_of_int n = c # cs" "c \<in> set ''-0123456789''"
    by (rule num_head_cases)
  with a JNum show ?thesis by auto
next
  case (JStr s)
  assume a: "CHR ''['' # X = stringify w @ r2"
  with JStr quote_head [of s] show ?thesis by auto
qed (auto split: if_splits)

lemma obj_kind: "CHR ''{'' # X = stringify w @ r2 \<Longrightarrow> \<exists>gs. w = JObj gs"
proof (cases w)
  case (JNum n)
  assume a: "CHR ''{'' # X = stringify w @ r2"
  obtain c cs where "string_of_int n = c # cs" "c \<in> set ''-0123456789''"
    by (rule num_head_cases)
  with a JNum show ?thesis by auto
next
  case (JStr s)
  assume a: "CHR ''{'' # X = stringify w @ r2"
  with JStr quote_head [of s] show ?thesis by auto
qed (auto split: if_splits)

lemma delimiters_no_digit:
  "noDigitAhead (CHR '']'' # r)" "noDigitAhead (CHR ''}'' # r)" "noDigitAhead (CHR '','' # r)"
  "noDigitAhead []"
  by (simp_all add: noDigitAhead_def isDigit_def)

lemma list3_cases:
  obtains "ys = []" | y where "ys = [y]" | y z zs where "ys = y # z # zs"
  by (cases ys; cases "tl ys") auto

lemma stringify_unique:
  "stringify v @ r1 = stringify w @ r2 \<Longrightarrow> noDigitAhead r1 \<Longrightarrow> noDigitAhead r2 \<Longrightarrow>
     v = w \<and> r1 = r2"
  "stringify_elements xs @ CHR '']'' # q1 = stringify_elements ys @ CHR '']'' # q2 \<Longrightarrow>
     xs = ys \<and> q1 = q2"
  "stringify_members fs @ CHR ''}'' # s1 = stringify_members gs @ CHR ''}'' # s2 \<Longrightarrow>
     fs = gs \<and> s1 = s2"
proof (induction v and xs and fs arbitrary: w r1 r2 and ys q1 q2 and gs s1 s2
       rule: stringify_stringify_elements_stringify_members.induct)
  case 1
  then show ?case using null_only [of r1 w r2] by auto
next
  case (2 b)
  then show ?case using bool_only [of b r1 w r2] by auto
next
  case (3 n)
  then show ?case using num_only [of n r1 w r2] by auto
next
  case (4 s)
  then show ?case using str_only [of s r1 w r2] by auto
next
  case (5 xs)
  from "5.prems"(1) obtain ys where w: "w = JArr ys"
    using arr_kind [of "stringify_elements xs @ '']'' @ r1" w r2] by auto
  with "5.prems"(1) have "stringify_elements xs @ CHR '']'' # r1
      = stringify_elements ys @ CHR '']'' # r2"
    by simp
  then have "xs = ys \<and> r1 = r2" by (rule "5.IH")
  with w show ?case by simp
next
  case (6 fs)
  from "6.prems"(1) obtain gs where w: "w = JObj gs"
    using obj_kind [of "stringify_members fs @ ''}'' @ r1" w r2] by auto
  with "6.prems"(1) have "stringify_members fs @ CHR ''}'' # r1
      = stringify_members gs @ CHR ''}'' # r2"
    by simp
  then have "fs = gs \<and> r1 = r2" by (rule "6.IH")
  with w show ?case by simp
next
  case 7
  show ?case
  proof (cases ys)
    case Nil
    with "7.prems" show ?thesis by simp
  next
    case (Cons y ys')
    obtain c cs where "stringify y = c # cs" "c \<notin> set '']},''"
      using stringify_head by blast
    with "7.prems" Cons show ?thesis by (cases ys') auto
  qed
next
  case (8 x)
  obtain c cs where hx: "stringify x = c # cs" "c \<notin> set '']},''"
    using stringify_head by blast
  show ?case
  proof (cases ys rule: list3_cases)
    case 1
    with "8.prems" hx show ?thesis by auto
  next
    case (2 y)
    with "8.prems" have "stringify x @ (CHR '']'' # q1) = stringify y @ (CHR '']'' # q2)"
      by simp
    then have "x = y \<and> CHR '']'' # q1 = CHR '']'' # q2"
      by (rule "8.IH") (rule delimiters_no_digit)+
    with 2 show ?thesis by simp
  next
    case (3 y z zs)
    with "8.prems" have "stringify x @ (CHR '']'' # q1)
        = stringify y @ (CHR '','' # stringify_elements (z # zs) @ CHR '']'' # q2)"
      by simp
    then have "x = y \<and> CHR '']'' # q1 = CHR '','' # stringify_elements (z # zs) @ CHR '']'' # q2"
      by (rule "8.IH") (rule delimiters_no_digit)+
    then show ?thesis by simp
  qed
next
  case (9 x y ys0)
  obtain c cs where hx: "stringify x = c # cs" "c \<notin> set '']},''"
    using stringify_head by blast
  show ?case
  proof (cases ys rule: list3_cases)
    case 1
    with "9.prems" hx show ?thesis by auto
  next
    case (2 y')
    with "9.prems" have "stringify x @ (CHR '','' # stringify_elements (y # ys0) @ CHR '']'' # q1)
        = stringify y' @ (CHR '']'' # q2)"
      by simp
    then have "x = y' \<and> CHR '','' # stringify_elements (y # ys0) @ CHR '']'' # q1 = CHR '']'' # q2"
      by (rule "9.IH"(1)) (rule delimiters_no_digit)+
    then show ?thesis by simp
  next
    case (3 y' z zs)
    with "9.prems" have "stringify x @ (CHR '','' # stringify_elements (y # ys0) @ CHR '']'' # q1)
        = stringify y' @ (CHR '','' # stringify_elements (z # zs) @ CHR '']'' # q2)"
      by simp
    then have "x = y' \<and> CHR '','' # stringify_elements (y # ys0) @ CHR '']'' # q1
        = CHR '','' # stringify_elements (z # zs) @ CHR '']'' # q2"
      by (rule "9.IH"(1)) (rule delimiters_no_digit)+
    moreover from this have "y # ys0 = z # zs \<and> q1 = q2"
      by (intro "9.IH"(2)) simp
    ultimately show ?thesis using 3 by simp
  qed
next
  case 10
  show ?case
  proof (cases gs)
    case Nil
    with "10.prems" show ?thesis by simp
  next
    case (Cons g gs')
    obtain k v where g: "g = (k, v)" by (cases g)
    with "10.prems" Cons quote_head [of k] show ?thesis by (cases gs') auto
  qed
next
  case (11 k v)
  show ?case
  proof (cases gs rule: list3_cases)
    case 1
    with "11.prems" quote_head [of k] show ?thesis by auto
  next
    case (2 g)
    obtain k' v' where g: "g = (k', v')" by (cases g)
    with "11.prems" 2 have "quote k @ (CHR '':'' # stringify v @ CHR ''}'' # s1)
        = quote k' @ (CHR '':'' # stringify v' @ CHR ''}'' # s2)"
      by simp
    then have kk: "k = k' \<and> CHR '':'' # stringify v @ CHR ''}'' # s1
        = CHR '':'' # stringify v' @ CHR ''}'' # s2"
      by (rule quote_unique)
    then have "stringify v @ (CHR ''}'' # s1) = stringify v' @ (CHR ''}'' # s2)" by simp
    then have "v = v' \<and> CHR ''}'' # s1 = CHR ''}'' # s2"
      by (rule "11.IH") (rule delimiters_no_digit)+
    with kk g 2 show ?thesis by simp
  next
    case (3 g z zs)
    obtain k' v' where g: "g = (k', v')" by (cases g)
    with "11.prems" 3 have "quote k @ (CHR '':'' # stringify v @ CHR ''}'' # s1)
        = quote k' @ (CHR '':'' # stringify v' @ CHR '','' # stringify_members (z # zs) @ CHR ''}'' # s2)"
      by simp
    then have kk: "k = k' \<and> CHR '':'' # stringify v @ CHR ''}'' # s1
        = CHR '':'' # stringify v' @ CHR '','' # stringify_members (z # zs) @ CHR ''}'' # s2"
      by (rule quote_unique)
    then have "stringify v @ (CHR ''}'' # s1)
        = stringify v' @ (CHR '','' # stringify_members (z # zs) @ CHR ''}'' # s2)" by simp
    then have "v = v' \<and> CHR ''}'' # s1 = CHR '','' # stringify_members (z # zs) @ CHR ''}'' # s2"
      by (rule "11.IH") (rule delimiters_no_digit)+
    then show ?thesis by simp
  qed
next
  case (12 k v f fs0)
  show ?case
  proof (cases gs rule: list3_cases)
    case 1
    with "12.prems" quote_head [of k] show ?thesis by auto
  next
    case (2 g)
    obtain k' v' where g: "g = (k', v')" by (cases g)
    with "12.prems" 2 have "quote k @ (CHR '':'' # stringify v @ CHR '','' # stringify_members (f # fs0) @ CHR ''}'' # s1)
        = quote k' @ (CHR '':'' # stringify v' @ CHR ''}'' # s2)"
      by simp
    then have kk: "k = k' \<and> CHR '':'' # stringify v @ CHR '','' # stringify_members (f # fs0) @ CHR ''}'' # s1
        = CHR '':'' # stringify v' @ CHR ''}'' # s2"
      by (rule quote_unique)
    then have "stringify v @ (CHR '','' # stringify_members (f # fs0) @ CHR ''}'' # s1)
        = stringify v' @ (CHR ''}'' # s2)" by simp
    then have "v = v' \<and> CHR '','' # stringify_members (f # fs0) @ CHR ''}'' # s1 = CHR ''}'' # s2"
      by (rule "12.IH"(1)) (rule delimiters_no_digit)+
    then show ?thesis by simp
  next
    case (3 g z zs)
    obtain k' v' where g: "g = (k', v')" by (cases g)
    with "12.prems" 3 have "quote k @ (CHR '':'' # stringify v @ CHR '','' # stringify_members (f # fs0) @ CHR ''}'' # s1)
        = quote k' @ (CHR '':'' # stringify v' @ CHR '','' # stringify_members (z # zs) @ CHR ''}'' # s2)"
      by simp
    then have kk: "k = k' \<and> CHR '':'' # stringify v @ CHR '','' # stringify_members (f # fs0) @ CHR ''}'' # s1
        = CHR '':'' # stringify v' @ CHR '','' # stringify_members (z # zs) @ CHR ''}'' # s2"
      by (rule quote_unique)
    then have "stringify v @ (CHR '','' # stringify_members (f # fs0) @ CHR ''}'' # s1)
        = stringify v' @ (CHR '','' # stringify_members (z # zs) @ CHR ''}'' # s2)" by simp
    then have vv: "v = v' \<and> CHR '','' # stringify_members (f # fs0) @ CHR ''}'' # s1
        = CHR '','' # stringify_members (z # zs) @ CHR ''}'' # s2"
      by (rule "12.IH"(1)) (rule delimiters_no_digit)+
    then have "f # fs0 = z # zs \<and> s1 = s2"
      by (intro "12.IH"(2)) simp
    with kk vv g 3 show ?thesis by simp
  qed
qed

text \<open>
  Counterexample to claim C4 as stated: two parameter objects with the same two fields and
  values, enumerated in opposite orders, get different cache keys.
\<close>

theorem C4_counterexample:
  "distinct (map fst [(''chat_id'', JNum 5), (''limit'', JNum 2)])
   \<and> distinct (map fst [(''limit'', JNum 2), (''chat_id'', JNum 5)])
   \<and> set [(''chat_id'', JNum 5), (''limit'', JNum 2)]
       = set [(''limit'', JNum 2), (''chat_id'', JNum 5)]
   \<and> generateKey ''getChat'' [(''chat_id'', JNum 5), (''limit'', JNum 2)]
       = ''getChat:{\"chat_id\":5,\"limit\":2}''
   \<and> generateKey ''getChat'' [(''limit'', JNum 2), (''chat_id'', JNum 5)]
       = ''getChat:{\"limit\":2,\"chat_id\":5}''
   \<and> generateKey ''getChat'' [(''chat_id'', JNum 5), (''limit'', JNum 2)]
       \<noteq> generateKey ''getChat'' [(''limit'', JNum 2), (''chat_id'', JNum 5)]"
  by (auto simp add: generateKey_def quote_def escape_char_def string_of_int_def
        string_of_nat.simps digit_char_def)

text \<open>
  Claim C4, amended. The cache key is the method, a colon and \<open>JSON.stringify\<close> of the
  parameter object, which writes the fields in the order in which the object enumerates
  them, at every nesting level, and sorts nothing. For parameter objects built from null,
  booleans, integers, strings, arrays and objects, the keys of \<open>(m, p)\<close> and \<open>(m, q)\<close>
  are equal exactly when \<open>p\<close> and \<open>q\<close> enumerate the same fields with the same values in
  the same order; two objects with the same fields in different orders get different keys.
\<close>

theorem C4_key_equal_iff_same_order:
  "(generateKey m p = generateKey m q) = (p = q)
   \<and> (set p = set q \<and> p \<noteq> q \<longrightarrow> generateKey m p \<noteq> generateKey m q)"
proof -
  have iff: "(generateKey m p = generateKey m q) = (p = q)"
  proof
    assume "generateKey m p = generateKey m q"
    then have "stringify (JObj p) @ [] = stringify (JObj q) @ []"
      by (simp add: generateKey_def)
    then have "JObj p = JObj q \<and> ([]::string) = []"
      by (rule stringify_unique(1)) (rule delimiters_no_digit)+
    then show "p = q" by simp
  next
    assume "p = q"
    then show "generateKey m p = generateKey m q" by simp
  qed
  then show ?thesis by simp
qed

theorem C4_witness:
  "set [(''chat_id'', JNum 5), (''limit'', JNum 2)] = set [(''limit'', JNum 2), (''chat_id'', JNum 5)]
   \<and> generateKey ''getChat'' [(''chat_id'', JNum 5), (''limit'', JNum 2)]
       \<noteq> generateKey ''getChat'' [(''limit'', JNum 2), (''chat_id'', JNum 5)]
   \<and> generateKey ''getChat'' [(''chat_id'', JNum 5), (''limit'', JNum 2)]
       = generateKey ''getChat'' [(''chat_id'', JNum 5), (''limit'', JNum 2)]"
proof -
  have s: "set [(''chat_id'', JNum 5), (''limit'', JNum 2)]
      = set [(''limit'', JNum 2), (''chat_id'', JNum 5)]"
    by auto
  have n: "[(''chat_id'', JNum 5), (''limit'', JNum 2)] \<noteq> [(''limit'', JNum 2), (''chat_id'', JNum 5)]"
    by simp
  from C4_key_equal_iff_same_order
         [where m = "''getChat''" and p = "[(''chat_id'', JNum 5), (''limit'', JNum 2)]"
            and q = "[(''limit'', JNum 2), (''chat_id'', JNum 5)]"] s n
  have "generateKey ''getChat'' [(''chat_id'', JNum 5), (''limit'', JNum 2)]
       \<noteq> generateKey ''getChat'' [(''limit'', JNum 2), (''chat_id'', JNum 5)]"
    by blast
  with s show ?thesis by simp
qed

section \<open>Properties of the per-chat rate limiter\<close>

















section \<open>Properties of the response cache\<close>

lemma takeWhile_method:
  "methodName n \<Longrightarrow> takeWhile (\<lambda>c. c \<noteq> CHR '':'') (n @ CHR '':'' # Z) = n"
  unfolding methodName_def by (induction n) auto

lemma method_prefix_unique:
  assumes "methodName m" "methodName m'" "m @ CHR '':'' # X = m' @ CHR '':'' # Y"
  shows "m = m' \<and> X = Y"
proof -
  have "m = takeWhile (\<lambda>c. c \<noteq> CHR '':'') (m @ CHR '':'' # X)"
    using assms(1) by (rule takeWhile_method [symmetric])
  also have "\<dots> = takeWhile (\<lambda>c. c \<noteq> CHR '':'') (m' @ CHR '':'' # Y)" using assms(3) by simp
  also have "\<dots> = m'" using assms(2) by (rule takeWhile_method)
  finally have "m = m'" .
  with assms(3) show ?thesis by simp
qed

lemma generateKey_inj:
  assumes "methodName m" "methodName m'"
  shows "(generateKey m' p' = generateKey m p) = (m' = m \<and> p' = p)"
proof
  assume "generateKey m' p' = generateKey m p"
  then have e: "m' @ CHR '':'' # stringify (JObj p') = m @ CHR '':'' # stringify (JObj p)"
    by (simp add: generateKey_def)
  with assms have mm: "m' = m \<and> stringify (JObj p') = stringify (JObj p)"
    by (intro method_prefix_unique)
  then have "stringify (JObj p') @ [] = stringify (JObj p) @ []" by simp
  then have "JObj p' = JObj p \<and> ([]::string) = []"
    by (rule stringify_unique(1)) (rule delimiters_no_digit)+
  with mm show "m' = m \<and> p' = p" by simp
next
  assume "m' = m \<and> p' = p"
  then show "generateKey m' p' = generateKey m p" by simp
qed

lemma other_method_prefix:
  assumes "methodName m" "methodName m'" "m' \<noteq> m"
  shows "\<not> startsWith (generateKey m p) (m' @ '':'')"
proof
  assume "startsWith (generateKey m p) (m' @ '':'')"
  then have "take (length (m' @ '':'')) (generateKey m p) = m' @ '':''"
    by (simp add: startsWith_def)
  then have "generateKey m p = (m' @ '':'') @ drop (length (m' @ '':'')) (generateKey m p)"
    by (metis append_take_drop_id)
  then have "m @ CHR '':'' # stringify (JObj p)
      = m' @ CHR '':'' # drop (length (m' @ '':'')) (generateKey m p)"
    by (simp add: generateKey_def)
  with assms(1,2) have "m = m'" by (auto dest: method_prefix_unique)
  with assms(3) show False by simp
qed

lemma leaves_claim_vocabulary:
  assumes "methodName m" "methodName m'"
  shows "m' \<noteq> m \<Longrightarrow> leaves (generateKey m p) deadline (EvictMethod m')"
    "(m', p') \<noteq> (m, p) \<Longrightarrow> leaves (generateKey m p) deadline (Store now m' p' v ttlMs)"
    "(m', p') \<noteq> (m, p) \<Longrightarrow> leaves (generateKey m p) deadline (Lookup now m' p')"
  using assms by (auto simp add: other_method_prefix generateKey_inj)

lemma undisturbed_leaves:
  "methodName m \<Longrightarrow> undisturbed m p deadline x \<Longrightarrow> leaves (generateKey m p) deadline x"
proof (cases x)
  case (Lookup now m' p')
  assume "methodName m" "undisturbed m p deadline x"
  with Lookup show ?thesis
    using leaves_claim_vocabulary(3) [of m m' p' p deadline now] by auto
next
  case (Store now m' p' d ttlMs)
  assume "methodName m" "undisturbed m p deadline x"
  with Store show ?thesis
    using leaves_claim_vocabulary(2) [of m m' p' p deadline now d ttlMs] by auto
next
  case (EvictMethod m')
  assume "methodName m" "undisturbed m p deadline x"
  with EvictMethod show ?thesis
    using leaves_claim_vocabulary(1) [of m m' p deadline] by auto
next
  case Clear
  assume "undisturbed m p deadline x"
  with Clear show ?thesis by simp
qed


lemma map_of_filter_keys:
  "P k \<Longrightarrow> map_of (filter (\<lambda>(key, entry). P key) c) k = map_of c k"
  by (induction c) auto

lemma cache_step_leaves:
  assumes "leaves key (expiresAt e) x" and "map_of c key = Some e"
  shows "map_of (cache_step x c) key = Some e"
proof (cases x)
  case (Lookup now meth ps)
  show ?thesis
  proof (cases "generateKey meth ps = key")
    case True
    with assms Lookup show ?thesis by (simp add: getCached_def)
  next
    case False
    with assms Lookup show ?thesis
      by (simp add: getCached_def Let_def delete_conv split: option.splits)
  qed
next
  case (Store now meth ps d ttlMs)
  with assms show ?thesis
    by (simp add: setCache_def Let_def update_conv split: option.splits)
next
  case (EvictMethod meth)
  with assms show ?thesis
    using map_of_filter_keys [of "\<lambda>k. \<not> startsWith k (meth @ '':'')" key c]
    by (simp add: clearCacheForMethod_def)
next
  case Clear
  with assms show ?thesis by simp
qed

lemma cache_run_leaves:
  "\<forall>x \<in> set xs. leaves key (expiresAt e) x \<Longrightarrow> map_of c key = Some e \<Longrightarrow>
   map_of (cache_run xs c) key = Some e"
  by (induction xs arbitrary: c) (simp_all add: cache_step_leaves)

lemma setCache_stores:
  "ttl \<noteq> 0 \<Longrightarrow>
   map_of (setCache t m p v (Some ttl) c) (generateKey m p) = Some \<lparr>data = v, expiresAt = t + ttl\<rparr>"
  by (simp add: setCache_def update_conv)

lemma getCached_fresh:
  "map_of c (generateKey m p) = Some e \<Longrightarrow> now \<le> expiresAt e \<Longrightarrow>
   getCached now m p c = (data e, c)"
  by (simp add: getCached_def)

lemma getCached_expired:
  "map_of c (generateKey m p) = Some e \<Longrightarrow> expiresAt e < now \<Longrightarrow>
   getCached now m p c = (JNull, AList.delete (generateKey m p) c)"
  by (simp add: getCached_def)

text \<open>
  Counterexample to claim C3 as stated: a lookup that observes \<open>now = expiresAt\<close> (so
  \<open>now \<ge> expiresAt\<close>) returns the stored value and leaves the entry in the cache.
\<close>

theorem C3_counterexample:
  "setCache 0 ''getMe'' [] (JNum 7) (Some 100) []
     = [(''getMe:{}'', \<lparr>data = JNum 7, expiresAt = 100\<rparr>)]
   \<and> expiresAt \<lparr>data = JNum 7, expiresAt = 100\<rparr> \<le> 100
   \<and> getCached 100 ''getMe'' [] [(''getMe:{}'', \<lparr>data = JNum 7, expiresAt = 100\<rparr>)]
       = (JNum 7, [(''getMe:{}'', \<lparr>data = JNum 7, expiresAt = 100\<rparr>)])"
  by (simp add: setCache_def getCached_def generateKey_def)

text \<open>
  Claim C3, amended. A \<open>setCache\<close> of \<open>v\<close> for \<open>(m, p)\<close> with time to live \<open>ttl\<close> at
  instant \<open>t\<close>, followed by any cache operations other than \<open>clearCache\<close>,
  \<open>clearCacheForMethod m\<close> and a store for \<open>(m, p)\<close> (lookups of \<open>(m, p)\<close> among them
  not later than \<open>t + ttl\<close>), and then by a \<open>getCached\<close> for \<open>(m, p)\<close> at \<open>t'\<close> with
  \<open>t' - t < ttl\<close>, returns \<open>v\<close>. A lookup that observes \<open>now > expiresAt\<close> deletes
  the entry and returns null; a lookup that observes \<open>now \<le> expiresAt\<close>, the instant
  \<open>now = expiresAt\<close> included, returns the stored value and changes nothing.
\<close>

theorem C3_store_then_lookup:
  "(methodName m \<and> t \<le> t' \<and> t' - t < ttl \<and> (\<forall>x \<in> set xs. undisturbed m p (t + ttl) x) \<longrightarrow>
      fst (getCached t' m p (cache_run xs (setCache t m p v (Some ttl) c))) = v)
   \<and> (map_of c (generateKey m p) = Some e \<and> expiresAt e < now \<longrightarrow>
        getCached now m p c = (JNull, AList.delete (generateKey m p) c)
        \<and> map_of (snd (getCached now m p c)) (generateKey m p) = None)
   \<and> (map_of c (generateKey m p) = Some e \<and> now \<le> expiresAt e \<longrightarrow>
        getCached now m p c = (data e, c))"
proof (intro conjI impI)
  assume h: "methodName m \<and> t \<le> t' \<and> t' - t < ttl
      \<and> (\<forall>x \<in> set xs. undisturbed m p (t + ttl) x)"
  let ?e = "\<lparr>data = v, expiresAt = t + ttl\<rparr>"
  from h have "ttl \<noteq> 0" by arith
  then have "map_of (setCache t m p v (Some ttl) c) (generateKey m p) = Some ?e"
    by (rule setCache_stores)
  moreover from h have "\<forall>x \<in> set xs. leaves (generateKey m p) (expiresAt ?e) x"
    by (simp add: undisturbed_leaves)
  ultimately have "map_of (cache_run xs (setCache t m p v (Some ttl) c)) (generateKey m p) = Some ?e"
    by (intro cache_run_leaves)
  moreover from h have "t' \<le> expiresAt ?e" by simp
  ultimately have "getCached t' m p (cache_run xs (setCache t m p v (Some ttl) c))
      = (data ?e, cache_run xs (setCache t m p v (Some ttl) c))"
    by (rule getCached_fresh)
  then show "fst (getCached t' m p (cache_run xs (setCache t m p v (Some ttl) c))) = v"
    by simp
next
  assume h: "map_of c (generateKey m p) = Some e \<and> expiresAt e < now"
  then show g: "getCached now m p c = (JNull, AList.delete (generateKey m p) c)"
    by (simp add: getCached_expired)
  show "map_of (snd (getCached now m p c)) (generateKey m p) = None"
    by (simp add: g delete_conv)
next
  assume "map_of c (generateKey m p) = Some e \<and> now \<le> expiresAt e"
  then show "getCached now m p c = (data e, c)"
    by (simp add: getCached_fresh)
qed

theorem C3_witness:
  "fst (getCached 59999 ''getChat'' [(''chat_id'', JNum 5)]
         (cache_run [Lookup 30000 ''getChat'' [(''chat_id'', JNum 5)],
                     Store 100 ''getMe'' [] JNull (Some 10),
                     Lookup 200 ''getMe'' [],
                     EvictMethod ''getMe'']
            (setCache 0 ''getChat'' [(''chat_id'', JNum 5)] (JStr ''five'') (Some 60000) [])))
     = JStr ''five''
   \<and> getCached 101 ''getMe'' [] [(''getMe:{}'', \<lparr>data = JNum 7, expiresAt = 100\<rparr>)]
       = (JNull, [])
   \<and> getCached 100 ''getMe'' [] [(''getMe:{}'', \<lparr>data = JNum 7, expiresAt = 100\<rparr>)]
       = (JNum 7, [(''getMe:{}'', \<lparr>data = JNum 7, expiresAt = 100\<rparr>)])"
proof -
  have k: "generateKey ''getMe'' [] = ''getMe:{}''"
    by (simp add: generateKey_def)
  have mn: "methodName ''getChat''" "methodName ''getMe''"
    by (simp_all add: methodName_def)
  have a: "fst (getCached 59999 ''getChat'' [(''chat_id'', JNum 5)]
         (cache_run [Lookup 30000 ''getChat'' [(''chat_id'', JNum 5)],
                     Store 100 ''getMe'' [] JNull (Some 10),
                     Lookup 200 ''getMe'' [],
                     EvictMethod ''getMe'']
            (setCache 0 ''getChat'' [(''chat_id'', JNum 5)] (JStr ''five'') (Some 60000) [])))
     = JStr ''five''"
    using C3_store_then_lookup
            [where t = 0 and t' = 59999 and ttl = 60000 and m = "''getChat''"
               and p = "[(''chat_id'', JNum 5)]" and v = "JStr ''five''" and c = "[]"
               and xs = "[Lookup 30000 ''getChat'' [(''chat_id'', JNum 5)],
                          Store 100 ''getMe'' [] JNull (Some 10),
                          Lookup 200 ''getMe'' [],
                          EvictMethod ''getMe'']", THEN conjunct1]
          mn
    by (simp del: cache_run.simps)
  have b: "getCached 101 ''getMe'' [] [(''getMe:{}'', \<lparr>data = JNum 7, expiresAt = 100\<rparr>)]
       = (JNull, [])"
    using C3_store_then_lookup
            [where m = "''getMe''" and p = "[]" and now = 101
               and c = "[(''getMe:{}'', \<lparr>data = JNum 7, expiresAt = 100\<rparr>)]"
               and e = "\<lparr>data = JNum 7, expiresAt = 100\<rparr>"]
    by (simp add: k)
  have c: "getCached 100 ''getMe'' [] [(''getMe:{}'', \<lparr>data = JNum 7, expiresAt = 100\<rparr>)]
       = (JNum 7, [(''getMe:{}'', \<lparr>data = JNum 7, expiresAt = 100\<rparr>)])"
    using C3_store_then_lookup
            [where m = "''getMe''" and p = "[]" and now = 100
               and c = "[(''getMe:{}'', \<lparr>data = JNum 7, expiresAt = 100\<rparr>)]"
               and e = "\<lparr>data = JNum 7, expiresAt = 100\<rparr>"]
    by (simp add: k)
  from a b c show ?thesis by blast
qed

section \<open>Properties of the pipeline driver\<close>

lemma onSuccess_frame:
  "wire (onSuccess now meth fp dat st) = wire st"
  "rateLimiter (onSuccess now meth fp dat st) = rateLimiter st"
  by (simp_all add: onSuccess_def Let_def split: option.splits)

lemma attemptsTrace_0: "attemptsTrace env k 0 = []"
  by (simp add: attemptsTrace_def)

lemma attemptsTrace_Suc: "attemptsTrace env k (Suc n) = attemptEvents env k @ attemptsTrace env (Suc k) n"
  by (simp add: attemptsTrace_def upt_rec)

lemma loopShape_step:
  assumes "loopShape env (Suc attempt) maxRetries
             (st\<lparr>rateLimiter := recordRequest (sentAt (attempts env attempt)) (rateLimiter st),
                 wire := wire st @ [Recorded (sentAt (attempts env attempt)), Fetched attempt]\<rparr>) r n"
    and "int attempt < maxRetries"
  shows "loopShape env attempt maxRetries st r (Suc n)"
  using assms
  by (auto simp add: loopShape_def attemptsTrace_Suc attemptEvents_def recordRequest_def
        upt_rec [of attempt])

lemma retryLoop_shape:
  "(\<forall>r. lastResponse = Some r \<longrightarrow> \<not> ok r) \<Longrightarrow>
   \<exists>n. loopShape env attempt maxRetries st
          (retryLoop timeout maxRetries env meth fp attempt lastResponse st) n"
proof (induction timeout maxRetries env meth fp attempt lastResponse st rule: retryLoop.induct)
  case (1 timeout maxRetries env meth fp attempt lastResponse st)
  let ?a = "attempts env attempt"
  let ?st1 = "st\<lparr>rateLimiter := recordRequest (sentAt ?a) (rateLimiter st),
                 wire := wire st @ [Recorded (sentAt ?a), Fetched attempt]\<rparr>"
  show ?case
  proof (cases "int attempt \<le> maxRetries")
    case False
    then have "loopShape env attempt maxRetries st
          (retryLoop timeout maxRetries env meth fp attempt lastResponse st) 0"
      using "1.prems"
      by (subst retryLoop.simps)
         (auto simp add: loopShape_def attemptsTrace_0 unknownError_def split: option.splits)
    then show ?thesis ..
  next
    case le: True
    show ?thesis
    proof (cases "outcome ?a")
      case (Reply dat)
      show ?thesis
      proof (cases "ok dat")
        case True
        have "loopShape env attempt maxRetries st
          (retryLoop timeout maxRetries env meth fp attempt lastResponse st) 1"
          using le Reply True
          by (subst retryLoop.simps)
             (simp add: loopShape_def Let_def onSuccess_frame attemptsTrace_def attemptEvents_def
                recordRequest_def)
        then show ?thesis ..
      next
        case nok: False
        show ?thesis
        proof (cases "isRetryableError dat \<and> int attempt < maxRetries")
          case True
          have eq: "retryLoop timeout maxRetries env meth fp attempt lastResponse st
                = retryLoop timeout maxRetries env meth fp (Suc attempt) (Some dat) ?st1"
            using le Reply nok True by (subst retryLoop.simps) (simp add: Let_def)
          from "1.IH"(1) [OF le refl refl Reply nok True] nok
          obtain n where "loopShape env (Suc attempt) maxRetries ?st1
              (retryLoop timeout maxRetries env meth fp (Suc attempt) (Some dat) ?st1) n"
            by auto
          then have "loopShape env attempt maxRetries st
              (retryLoop timeout maxRetries env meth fp (Suc attempt) (Some dat) ?st1) (Suc n)"
            using True by (intro loopShape_step) simp_all
          then show ?thesis unfolding eq ..
        next
          case False
          have "loopShape env attempt maxRetries st
            (retryLoop timeout maxRetries env meth fp attempt lastResponse st) 1"
            using le Reply nok False
            by (subst retryLoop.simps)
               (auto simp add: loopShape_def Let_def attemptsTrace_def attemptEvents_def
                  recordRequest_def)
          then show ?thesis ..
        qed
      qed
    next
      case (Thrown isTimeout errorMessage)
      show ?thesis
      proof (cases "int attempt < maxRetries")
        case True
        have eq: "retryLoop timeout maxRetries env meth fp attempt lastResponse st
              = retryLoop timeout maxRetries env meth fp (Suc attempt)
                  (Some (thrownResponse timeout isTimeout errorMessage)) ?st1"
          using le Thrown True by (subst retryLoop.simps) (simp add: Let_def)
        have "\<forall>r. Some (thrownResponse timeout isTimeout errorMessage) = Some r \<longrightarrow> \<not> ok r"
          by (simp add: thrownResponse_def)
        from "1.IH"(2) [OF le refl refl Thrown True this]
        obtain n where "loopShape env (Suc attempt) maxRetries ?st1
            (retryLoop timeout maxRetries env meth fp (Suc attempt)
               (Some (thrownResponse timeout isTimeout errorMessage)) ?st1) n"
          by auto
        then have "loopShape env attempt maxRetries st
            (retryLoop timeout maxRetries env meth fp (Suc attempt)
               (Some (thrownResponse timeout isTimeout errorMessage)) ?st1) (Suc n)"
          using True by (intro loopShape_step) simp_all
        then show ?thesis unfolding eq ..
      next
        case False
        have "loopShape env attempt maxRetries st
          (retryLoop timeout maxRetries env meth fp attempt lastResponse st) 1"
          using le Thrown False
          by (subst retryLoop.simps)
             (auto simp add: loopShape_def Let_def attemptsTrace_def attemptEvents_def
                recordRequest_def thrownResponse_def)
        then show ?thesis ..
      qed
    qed
  qed
qed

lemma filter_fetch_trace: "length (filter isFetch (attemptsTrace env k n)) = n"
  by (induction n arbitrary: k) (simp_all add: attemptsTrace_0 attemptsTrace_Suc attemptEvents_def isFetch_def)

lemma filter_record_trace: "length (filter (\<lambda>ev. \<not> isFetch ev) (attemptsTrace env k n)) = n"
  by (induction n arbitrary: k) (simp_all add: attemptsTrace_0 attemptsTrace_Suc attemptEvents_def isFetch_def)

lemma checkGlobalLimit_shape:
  "requests (snd (checkGlobalLimit now l)) = filter (\<lambda>t. now - t < 60000) (requests l)
   \<and> (\<forall>r. fst (checkGlobalLimit now l) = Some r \<longrightarrow> \<not> ok r)"
  by (simp add: checkGlobalLimit_def canMakeRequest_def getWaitTime_def Let_def requests_cleanup
        cleanup_idem split: list.splits)

lemma checkPerChatLimit_refusal:
  "checkPerChatLimit now chatId p = (Some r, p') \<Longrightarrow> \<not> ok r"
  by (auto simp add: checkPerChatLimit_def Let_def case_prod_beta split: if_splits)

lemma loop_callShape:
  assumes w: "wire st3 = wire st"
    and rq: "requests (rateLimiter st3) = requests (rateLimiter st)
             \<or> requests (rateLimiter st3)
                = filter (\<lambda>t. startedAt env - t < 60000) (requests (rateLimiter st))"
  shows "\<exists>n. callShape env maxRetries st (retryLoop timeout maxRetries env meth fp 0 None st3) n"
proof -
  obtain n where "loopShape env 0 maxRetries st3
      (retryLoop timeout maxRetries env meth fp 0 None st3) n"
    using retryLoop_shape [of None env 0 maxRetries st3 timeout meth fp] by auto
  then have "callShape env maxRetries st (retryLoop timeout maxRetries env meth fp 0 None st3) n"
    using w rq by (auto simp add: loopShape_def callShape_def add.commute)
  then show ?thesis ..
qed

lemma refusal_callShape:
  "\<not> ok r \<Longrightarrow> wire st' = wire st \<Longrightarrow>
   requests (rateLimiter st') = requests (rateLimiter st)
     \<or> requests (rateLimiter st')
        = filter (\<lambda>t. startedAt env - t < 60000) (requests (rateLimiter st)) \<Longrightarrow>
   callShape env maxRetries st (r, st') 0"
  by (auto simp add: callShape_def attemptsTrace_0)

lemma sendRequest_shape:
  "\<exists>n. callShape env maxRetries st (sendRequest timeout maxRetries skip env meth ps st) n"
proof -
  let ?now = "startedAt env"
  obtain blocked b1 where io: "isOpen ?now (circuitBreaker st) = (blocked, b1)"
    by (cases "isOpen ?now (circuitBreaker st)")
  let ?st1 = "st\<lparr>circuitBreaker := b1\<rparr>"
  show ?thesis
  proof (cases blocked)
    case True
    then have "sendRequest timeout maxRetries skip env meth ps st = (circuitOpenResponse, ?st1)"
      by (simp add: sendRequest_def io)
    moreover have "callShape env maxRetries st (circuitOpenResponse, ?st1) 0"
      by (rule refusal_callShape) (simp_all add: circuitOpenResponse_def)
    ultimately show ?thesis by auto
  next
    case nb: False
    obtain refusal l1 where gl:
      "(if skip then (None, rateLimiter ?st1) else checkGlobalLimit ?now (rateLimiter ?st1))
         = (refusal, l1)"
      by (cases "if skip then (None, rateLimiter ?st1) else checkGlobalLimit ?now (rateLimiter ?st1)")
    let ?st2 = "?st1\<lparr>rateLimiter := l1\<rparr>"
    have l1: "requests l1 = requests (rateLimiter st)
              \<or> requests l1 = filter (\<lambda>t. ?now - t < 60000) (requests (rateLimiter st))"
      using gl checkGlobalLimit_shape [of ?now "rateLimiter st"]
      by (cases skip) (auto simp add: snd_def split: prod.splits)
    have ref1: "\<And>r. refusal = Some r \<Longrightarrow> \<not> ok r"
      using gl checkGlobalLimit_shape [of ?now "rateLimiter st"]
      by (cases skip) (auto simp add: fst_def split: prod.splits)
    show ?thesis
    proof (cases refusal)
      case (Some r)
      then have "sendRequest timeout maxRetries skip env meth ps st = (r, ?st2)"
        using nb gl by (simp add: sendRequest_def io)
      moreover have "callShape env maxRetries st (r, ?st2) 0"
        using l1 ref1 [OF Some] by (intro refusal_callShape) simp_all
      ultimately show ?thesis by auto
    next
      case None
      let ?pc = "if \<not> skip \<and> meth \<in> set MESSAGE_SENDING_METHODS then
                   (case chatIdOf ps of
                      Some chatId \<Rightarrow> checkPerChatLimit ?now chatId (perChatLimiter ?st2)
                    | None \<Rightarrow> (None, perChatLimiter ?st2))
                 else (None, perChatLimiter ?st2)"
      obtain refusal2 p1 where pc: "?pc = (refusal2, p1)" by (cases ?pc)
      let ?st3 = "?st2\<lparr>perChatLimiter := p1\<rparr>"
      have ref2: "\<And>r. refusal2 = Some r \<Longrightarrow> \<not> ok r"
        using pc by (auto dest: checkPerChatLimit_refusal split: if_splits option.splits)
      have st3: "wire ?st3 = wire st"
        "requests (rateLimiter ?st3) = requests (rateLimiter st)
          \<or> requests (rateLimiter ?st3) = filter (\<lambda>t. ?now - t < 60000) (requests (rateLimiter st))"
        using l1 by simp_all
      show ?thesis
      proof (cases refusal2)
        case (Some r)
        then have "sendRequest timeout maxRetries skip env meth ps st = (r, ?st3)"
          using nb gl None pc by (simp add: sendRequest_def io)
        moreover have "callShape env maxRetries st (r, ?st3) 0"
          using st3 ref2 [OF Some] by (intro refusal_callShape)
        ultimately show ?thesis by auto
      next
        case n2: None
        let ?up = "if meth \<in> set FILE_UPLOAD_METHODS then uploadCheck env else NoLocalFiles"
        show ?thesis
        proof (cases ?up)
          case NoLocalFiles
          then have "sendRequest timeout maxRetries skip env meth ps st
                = retryLoop timeout maxRetries env meth ps 0 None ?st3"
            using nb gl None pc n2 by (simp add: sendRequest_def io)
          then show ?thesis using loop_callShape [OF st3] by simp
        next
          case (LocalFiles finalParams)
          then have "sendRequest timeout maxRetries skip env meth ps st
                = retryLoop timeout maxRetries env meth finalParams 0 None ?st3"
            using nb gl None pc n2 by (simp add: sendRequest_def io)
          then show ?thesis using loop_callShape [OF st3] by simp
        next
          case (FileError errorMessage)
          let ?r = "\<lparr>ok = False, result = None,
                      description = Some (''File upload error: '' @ errorMessage),
                      error_code = Some 400, retry_after = None\<rparr>"
          from FileError have "sendRequest timeout maxRetries skip env meth ps st = (?r, ?st3)"
            using nb gl None pc n2 by (simp add: sendRequest_def io)
          moreover have "callShape env maxRetries st (?r, ?st3) 0"
            using st3 by (intro refusal_callShape) simp_all
          ultimately show ?thesis by auto
        qed
      qed
    qed
  qed
qed

lemma callTelegramAPI_shape:
  assumes m: "maxRetries = (case opt_maxRetries options of Some m \<Rightarrow> m | None \<Rightarrow> cfg_maxRetries config)"
  shows "\<exists>n. callShape env maxRetries st (callTelegramAPI config options env meth ps st) n"
proof -
  let ?probe = "if isCacheable meth then getCached (startedAt env) meth ps (cache st)
                else (JNull, cache st)"
  let ?st1 = "st\<lparr>cache := snd ?probe\<rparr>"
  let ?timeout = "case opt_timeout options of Some t \<Rightarrow> t | None \<Rightarrow> cfg_requestTimeout config"
  show ?thesis
  proof (cases "isCacheable meth \<and> fst ?probe \<noteq> JNull")
    case True
    then have "callTelegramAPI config options env meth ps st =
        (\<lparr>ok = True, result = Some (fst ?probe), description = None, error_code = None,
          retry_after = None\<rparr>, ?st1)"
      by (auto simp add: callTelegramAPI_def case_prod_beta Let_def)
    moreover have "callShape env maxRetries st
        (\<lparr>ok = True, result = Some (fst ?probe), description = None, error_code = None,
          retry_after = None\<rparr>, ?st1) 0"
      by (simp add: callShape_def attemptsTrace_0)
    ultimately show ?thesis by auto
  next
    case False
    then have eq: "callTelegramAPI config options env meth ps st =
        sendRequest ?timeout maxRetries (opt_skipRateLimit options) env meth ps ?st1"
      unfolding m by (auto simp add: callTelegramAPI_def case_prod_beta Let_def)
    obtain n where "callShape env maxRetries ?st1
        (sendRequest ?timeout maxRetries (opt_skipRateLimit options) env meth ps ?st1) n"
      using sendRequest_shape by blast
    then have "callShape env maxRetries st
        (sendRequest ?timeout maxRetries (opt_skipRateLimit options) env meth ps ?st1) n"
      by (simp add: callShape_def)
    then show ?thesis unfolding eq ..
  qed
qed

lemma callShape_counts:
  assumes "callShape env maxRetries st r n"
  shows "attemptsMade st (snd r) = n" "recordCount (snd r) = recordCount st + n"
  using assms
  by (simp_all add: callShape_def attemptsMade_def fetchCount_def recordCount_def
        filter_fetch_trace filter_record_trace)

lemma newPipeline_counts:
  "fetchCount (newPipeline config t) = 0" "recordCount (newPipeline config t) = 0"
  "wire (newPipeline config t) = []"
  by (simp_all add: fetchCount_def recordCount_def newPipeline_def)

lemma flaky_run:
  "callTelegramAPI defaultConfig noOptions flakyEnv ''getUpdates'' [] (newPipeline defaultConfig 0)
     = (okReply,
        \<lparr>cache = [], rateLimiter = \<lparr>requests = [10, 1020], limitPerMinute = 30\<rparr>,
         perChatLimiter = newPerChatRateLimiter 0, circuitBreaker = newCircuitBreaker,
         wire = [Recorded 10, Fetched 0, Recorded 1020, Fetched 1]\<rparr>)"
  by (simp add: callTelegramAPI_def sendRequest_def defaultConfig_def noOptions_def flakyEnv_def
        newPipeline_def isCacheable_def CACHE_TTL_def isOpen_def newCircuitBreaker_def
        checkGlobalLimit_def canMakeRequest_def cleanup_def newRateLimiter_def
        MESSAGE_SENDING_METHODS_def FILE_UPLOAD_METHODS_def retryLoop.simps
        serverErrorReply_def okReply_def isRetryableError_def onSuccess_def recordRequest_def
        recordSuccess_def Let_def)

text \<open>
  Counterexample to claim C7 as stated: the cache holds, under the key of \<open>getMe\<close>
  with no parameters, an entry that has not expired at the instant of the call and whose
  value is null. The invocation does not return the cached value: it fetches twice (the
  first attempt is answered with code 500), records two instants in the global limiter and
  replaces the entry by the result of the second attempt.
\<close>

theorem C7_counterexample:
  "isCacheable ''getMe''
   \<and> map_of [(''getMe:{}'', \<lparr>data = JNull, expiresAt = 60000\<rparr>)] (generateKey ''getMe'' [])
       = Some \<lparr>data = JNull, expiresAt = 60000\<rparr>
   \<and> startedAt flakyEnv \<le> 60000
   \<and> callTelegramAPI defaultConfig noOptions flakyEnv ''getMe'' []
       ((newPipeline defaultConfig 0)
          \<lparr>cache := [(''getMe:{}'', \<lparr>data = JNull, expiresAt = 60000\<rparr>)]\<rparr>)
     = (okReply,
        \<lparr>cache = [(''getMe:{}'', \<lparr>data = JArr [], expiresAt = 3601030\<rparr>)],
         rateLimiter = \<lparr>requests = [10, 1020], limitPerMinute = 30\<rparr>,
         perChatLimiter = newPerChatRateLimiter 0, circuitBreaker = newCircuitBreaker,
         wire = [Recorded 10, Fetched 0, Recorded 1020, Fetched 1]\<rparr>)"
  by (simp add: callTelegramAPI_def sendRequest_def defaultConfig_def noOptions_def flakyEnv_def
        newPipeline_def isCacheable_def CACHE_TTL_def getCached_def generateKey_def setCache_def
        isOpen_def newCircuitBreaker_def
        checkGlobalLimit_def canMakeRequest_def cleanup_def newRateLimiter_def
        MESSAGE_SENDING_METHODS_def FILE_UPLOAD_METHODS_def retryLoop.simps
        serverErrorReply_def okReply_def isRetryableError_def onSuccess_def recordRequest_def
        recordSuccess_def Let_def)

text \<open>
  Claim C7, amended. When the method is cacheable and the cache holds, under the key of the
  given parameters, an entry that has not expired at the instant of the call and whose
  value is not null, \<open>callTelegramAPI\<close> returns \<open>{ok: true, result: <cached>}\<close> and
  the whole state of the pipeline is as before: no \<open>fetch\<close> and no \<open>recordRequest\<close>
  on the wire, the global limiter, the per-chat limiter and the breaker unchanged. When the
  value of such an entry is null, the probe cannot tell it from a miss (\<open>getCached\<close>
  returns null for both): the invocation goes on with the stages after the probe, in the
  state in which it started.
\<close>

theorem C7_cache_hit_skips_pipeline:
  "(isCacheable meth \<and> map_of (cache st) (generateKey meth ps) = Some e
    \<and> startedAt env \<le> expiresAt e \<and> data e \<noteq> JNull \<longrightarrow>
      callTelegramAPI config options env meth ps st =
        (\<lparr>ok = True, result = Some (data e), description = None, error_code = None,
          retry_after = None\<rparr>, st)
    \<and> attemptsMade st (snd (callTelegramAPI config options env meth ps st)) = 0
    \<and> wire (snd (callTelegramAPI config options env meth ps st)) = wire st
    \<and> rateLimiter (snd (callTelegramAPI config options env meth ps st)) = rateLimiter st
    \<and> perChatLimiter (snd (callTelegramAPI config options env meth ps st)) = perChatLimiter st
    \<and> circuitBreaker (snd (callTelegramAPI config options env meth ps st)) = circuitBreaker st)
   \<and> (isCacheable meth \<and> map_of (cache st) (generateKey meth ps) = Some e
      \<and> startedAt env \<le> expiresAt e \<and> data e = JNull \<longrightarrow>
        callTelegramAPI config options env meth ps st =
          sendRequest
            (case opt_timeout options of Some t \<Rightarrow> t | None \<Rightarrow> cfg_requestTimeout config)
            (case opt_maxRetries options of Some m \<Rightarrow> m | None \<Rightarrow> cfg_maxRetries config)
            (opt_skipRateLimit options) env meth ps st)"
proof (intro conjI impI)
  assume h: "isCacheable meth \<and> map_of (cache st) (generateKey meth ps) = Some e
    \<and> startedAt env \<le> expiresAt e \<and> data e \<noteq> JNull"
  then have "getCached (startedAt env) meth ps (cache st) = (data e, cache st)"
    by (simp add: getCached_fresh)
  with h show eq: "callTelegramAPI config options env meth ps st =
       (\<lparr>ok = True, result = Some (data e), description = None, error_code = None,
         retry_after = None\<rparr>, st)"
    by (simp add: callTelegramAPI_def)
  show "attemptsMade st (snd (callTelegramAPI config options env meth ps st)) = 0"
    "wire (snd (callTelegramAPI config options env meth ps st)) = wire st"
    "rateLimiter (snd (callTelegramAPI config options env meth ps st)) = rateLimiter st"
    "perChatLimiter (snd (callTelegramAPI config options env meth ps st)) = perChatLimiter st"
    "circuitBreaker (snd (callTelegramAPI config options env meth ps st)) = circuitBreaker st"
    by (simp_all add: eq attemptsMade_def)
next
  assume h: "isCacheable meth \<and> map_of (cache st) (generateKey meth ps) = Some e
      \<and> startedAt env \<le> expiresAt e \<and> data e = JNull"
  then have "getCached (startedAt env) meth ps (cache st) = (JNull, cache st)"
    by (simp add: getCached_fresh)
  then show "callTelegramAPI config options env meth ps st =
          sendRequest
            (case opt_timeout options of Some t \<Rightarrow> t | None \<Rightarrow> cfg_requestTimeout config)
            (case opt_maxRetries options of Some m \<Rightarrow> m | None \<Rightarrow> cfg_maxRetries config)
            (opt_skipRateLimit options) env meth ps st"
    by (simp add: callTelegramAPI_def)
qed

theorem C7_witness:
  "callTelegramAPI defaultConfig noOptions flakyEnv ''getMe'' []
     ((newPipeline defaultConfig 0)
        \<lparr>cache := [(''getMe:{}'', \<lparr>data = JObj [(''id'', JNum 7)], expiresAt = 60000\<rparr>)]\<rparr>)
   = (\<lparr>ok = True, result = Some (JObj [(''id'', JNum 7)]), description = None,
       error_code = None, retry_after = None\<rparr>,
      (newPipeline defaultConfig 0)
        \<lparr>cache := [(''getMe:{}'', \<lparr>data = JObj [(''id'', JNum 7)], expiresAt = 60000\<rparr>)]\<rparr>)
   \<and> attemptsMade
        ((newPipeline defaultConfig 0)
           \<lparr>cache := [(''getMe:{}'', \<lparr>data = JObj [(''id'', JNum 7)], expiresAt = 60000\<rparr>)]\<rparr>)
        (snd (callTelegramAPI defaultConfig noOptions flakyEnv ''getMe'' []
           ((newPipeline defaultConfig 0)
              \<lparr>cache := [(''getMe:{}'', \<lparr>data = JObj [(''id'', JNum 7)], expiresAt = 60000\<rparr>)]\<rparr>)))
       = 0
   \<and> callTelegramAPI defaultConfig noOptions flakyEnv ''getMe'' []
        ((newPipeline defaultConfig 0)
           \<lparr>cache := [(''getMe:{}'', \<lparr>data = JNull, expiresAt = 60000\<rparr>)]\<rparr>)
      = sendRequest 30000 3 False flakyEnv ''getMe'' []
          ((newPipeline defaultConfig 0)
             \<lparr>cache := [(''getMe:{}'', \<lparr>data = JNull, expiresAt = 60000\<rparr>)]\<rparr>)"
proof -
  let ?e = "\<lparr>data = JObj [(''id'', JNum 7)], expiresAt = 60000\<rparr>"
  let ?st = "(newPipeline defaultConfig 0)\<lparr>cache := [(''getMe:{}'', ?e)]\<rparr>"
  let ?nul = "\<lparr>data = JNull, expiresAt = 60000\<rparr>"
  let ?stn = "(newPipeline defaultConfig 0)\<lparr>cache := [(''getMe:{}'', ?nul)]\<rparr>"
  have h: "isCacheable ''getMe'' \<and> map_of (cache ?st) (generateKey ''getMe'' []) = Some ?e
           \<and> startedAt flakyEnv \<le> expiresAt ?e \<and> data ?e \<noteq> JNull"
    by (simp add: isCacheable_def CACHE_TTL_def generateKey_def flakyEnv_def)
  from C7_cache_hit_skips_pipeline
         [where meth = "''getMe''" and st = ?st and ps = "[]" and e = ?e and env = flakyEnv
            and config = defaultConfig and options = noOptions, THEN conjunct1] h
  have "callTelegramAPI defaultConfig noOptions flakyEnv ''getMe'' [] ?st =
       (\<lparr>ok = True, result = Some (data ?e), description = None, error_code = None,
         retry_after = None\<rparr>, ?st)
     \<and> attemptsMade ?st (snd (callTelegramAPI defaultConfig noOptions flakyEnv ''getMe'' [] ?st)) = 0"
    by blast
  then have hit: "callTelegramAPI defaultConfig noOptions flakyEnv ''getMe'' [] ?st =
       (\<lparr>ok = True, result = Some (JObj [(''id'', JNum 7)]), description = None,
         error_code = None, retry_after = None\<rparr>, ?st)
     \<and> attemptsMade ?st (snd (callTelegramAPI defaultConfig noOptions flakyEnv ''getMe'' [] ?st)) = 0"
    by (simp add: attemptsMade_def)
  have h0: "isCacheable ''getMe'' \<and> map_of (cache ?stn) (generateKey ''getMe'' []) = Some ?nul
           \<and> startedAt flakyEnv \<le> expiresAt ?nul \<and> data ?nul = JNull"
    by (simp add: isCacheable_def CACHE_TTL_def generateKey_def flakyEnv_def)
  from C7_cache_hit_skips_pipeline
         [where meth = "''getMe''" and st = ?stn and ps = "[]" and e = ?nul and env = flakyEnv
            and config = defaultConfig and options = noOptions, THEN conjunct2] h0
  have "callTelegramAPI defaultConfig noOptions flakyEnv ''getMe'' [] ?stn =
          sendRequest
            (case opt_timeout noOptions of Some t \<Rightarrow> t | None \<Rightarrow> cfg_requestTimeout defaultConfig)
            (case opt_maxRetries noOptions of Some m \<Rightarrow> m | None \<Rightarrow> cfg_maxRetries defaultConfig)
            (opt_skipRateLimit noOptions) flakyEnv ''getMe'' [] ?stn"
    by blast
  then have miss: "callTelegramAPI defaultConfig noOptions flakyEnv ''getMe'' [] ?stn =
          sendRequest 30000 3 False flakyEnv ''getMe'' [] ?stn"
    by (simp add: noOptions_def defaultConfig_def)
  from hit miss show ?thesis by blast
qed
















text \<open>
  Counterexample to claim C9 as stated: an invocation whose first attempt is answered with
  code 500 and whose second attempt succeeds returns \<open>ok\<close> and has called
  \<open>recordRequest\<close> twice.
\<close>

theorem C9_counterexample:
  "ok (fst (callTelegramAPI defaultConfig noOptions flakyEnv ''getUpdates'' []
              (newPipeline defaultConfig 0)))
   \<and> recordCount (newPipeline defaultConfig 0) = 0
   \<and> recordCount (snd (callTelegramAPI defaultConfig noOptions flakyEnv ''getUpdates'' []
                          (newPipeline defaultConfig 0))) = 2
   \<and> requests (rateLimiter (snd (callTelegramAPI defaultConfig noOptions flakyEnv ''getUpdates'' []
                                    (newPipeline defaultConfig 0)))) = [10, 1020]"
  by (simp add: flaky_run okReply_def newPipeline_counts) (simp add: recordCount_def isFetch_def)

text \<open>
  Claim C9, amended. An invocation that makes \<open>n\<close> attempts calls \<open>recordRequest\<close>
  of the global limiter exactly \<open>n\<close> times, once immediately before each \<open>fetch\<close>,
  retries included, and appends the \<open>n\<close> instants to the limiter (after the instants the
  admission check kept). A successful invocation that made at least one attempt returns
  the reply of its last attempt, so it is paired with one \<open>recordRequest\<close> per attempt
  it needed; one served from the cache makes no attempt and no \<open>recordRequest\<close>.
\<close>

theorem C9_one_record_per_attempt:
  "maxRetries = (case opt_maxRetries options of Some m \<Rightarrow> m | None \<Rightarrow> cfg_maxRetries config)
   \<and> st' = snd (callTelegramAPI config options env meth ps st)
   \<and> n = attemptsMade st st' \<longrightarrow>
     wire st' = wire st @ concat (map (\<lambda>i. [Recorded (sentAt (attempts env i)), Fetched i]) [0..<n])
   \<and> recordCount st' = recordCount st + n
   \<and> (requests (rateLimiter st') =
         requests (rateLimiter st) @ map (\<lambda>i. sentAt (attempts env i)) [0..<n]
       \<or> requests (rateLimiter st') =
         filter (\<lambda>t. startedAt env - t < 60000) (requests (rateLimiter st))
           @ map (\<lambda>i. sentAt (attempts env i)) [0..<n])
   \<and> (ok (fst (callTelegramAPI config options env meth ps st)) \<and> 0 < n \<longrightarrow>
        outcome (attempts env (n - 1)) = Reply (fst (callTelegramAPI config options env meth ps st)))"
proof (intro impI)
  assume h: "maxRetries = (case opt_maxRetries options of Some m \<Rightarrow> m | None \<Rightarrow> cfg_maxRetries config)
   \<and> st' = snd (callTelegramAPI config options env meth ps st)
   \<and> n = attemptsMade st st'"
  then obtain k where k: "callShape env maxRetries st (callTelegramAPI config options env meth ps st) k"
    using callTelegramAPI_shape [where maxRetries = maxRetries and options = options
            and config = config] by blast
  from k h have kn: "k = n" using callShape_counts(1) [OF k] by simp
  from k h show "wire st' = wire st @ concat (map (\<lambda>i. [Recorded (sentAt (attempts env i)), Fetched i]) [0..<n])
   \<and> recordCount st' = recordCount st + n
   \<and> (requests (rateLimiter st') =
         requests (rateLimiter st) @ map (\<lambda>i. sentAt (attempts env i)) [0..<n]
       \<or> requests (rateLimiter st') =
         filter (\<lambda>t. startedAt env - t < 60000) (requests (rateLimiter st))
           @ map (\<lambda>i. sentAt (attempts env i)) [0..<n])
   \<and> (ok (fst (callTelegramAPI config options env meth ps st)) \<and> 0 < n \<longrightarrow>
        outcome (attempts env (n - 1)) = Reply (fst (callTelegramAPI config options env meth ps st)))"
    using callShape_counts(2) [OF k]
    unfolding kn [symmetric]
    by (simp add: callShape_def attemptsTrace_def attemptEvents_def [abs_def])
qed

theorem C9_witness:
  "wire (snd (callTelegramAPI defaultConfig noOptions flakyEnv ''getUpdates'' []
                (newPipeline defaultConfig 0)))
     = [Recorded 10, Fetched 0, Recorded 1020, Fetched 1]
   \<and> recordCount (snd (callTelegramAPI defaultConfig noOptions flakyEnv ''getUpdates'' []
                          (newPipeline defaultConfig 0))) = 2
   \<and> outcome (attempts flakyEnv 1)
       = Reply (fst (callTelegramAPI defaultConfig noOptions flakyEnv ''getUpdates'' []
                       (newPipeline defaultConfig 0)))"
proof -
  let ?R = "callTelegramAPI defaultConfig noOptions flakyEnv ''getUpdates'' []
              (newPipeline defaultConfig 0)"
  have m: "(3::int) = (case opt_maxRetries noOptions of Some m \<Rightarrow> m
                       | None \<Rightarrow> cfg_maxRetries defaultConfig)"
    by (simp add: noOptions_def defaultConfig_def)
  have n: "attemptsMade (newPipeline defaultConfig 0) (snd ?R) = 2"
    by (simp add: flaky_run attemptsMade_def newPipeline_counts) (simp add: fetchCount_def isFetch_def)
  have o: "ok (fst ?R)" by (simp add: flaky_run okReply_def)
  have upt2: "[0..<2] = [0, Suc 0]" by (simp add: upt_rec)
  show ?thesis
    using C9_one_record_per_attempt
            [where maxRetries = 3 and options = noOptions and config = defaultConfig
               and env = flakyEnv and meth = "''getUpdates''" and ps = "[]"
               and st = "newPipeline defaultConfig 0" and st' = "snd ?R" and n = 2] m n o
    by (simp add: upt2 newPipeline_counts flakyEnv_def)
qed

end
